theory Spec2Isabelle
  imports Complex_Main
begin

section \<open>Data model (types.ts)\<close>

text \<open>
  The enums of \<^verbatim>\<open>types.ts\<close> and the capture state of \<^verbatim>\<open>App.tsx\<close> are datatypes.
  JavaScript numbers that hold coordinates, distances and random draws are modelled by
  \<^typ>\<open>real\<close>: rounding and NaN are outside the model. Frame counters are \<^typ>\<open>nat\<close>,
  timestamps in milliseconds are \<^typ>\<open>int\<close>.
\<close>

datatype AppMode = LOADING | SCATTER | TREE | TEXT

datatype GestureType = NONE | PINCH | FIST | L_SHAPE | OPEN_PALM | THUMBS_UP

datatype ParticleType = ORNAMENT | STAR_ORNAMENT | LIGHT | PHOTO

datatype CaptureState = IDLE | COUNTDOWN | FLASH | DEVELOPING | FLYING

record Vector3 =
  vx :: real
  vy :: real
  vz :: real

text \<open>A \<^verbatim>\<open>NormalizedLandmark\<close>; only its \<^verbatim>\<open>x\<close> and \<^verbatim>\<open>y\<close> are read by the application.\<close>

record Landmark =
  lx :: real
  ly :: real

section \<open>Gesture classifier (predictLoop, the block that computes gest)\<close>

definition hypot :: "real \<Rightarrow> real \<Rightarrow> real" where
  "hypot a b = sqrt (a * a + b * b)"

text \<open>\<^verbatim>\<open>isEx(tip, mcpIdx)\<close>: the tip is farther from the wrist than 1.1 times the joint.\<close>

definition isEx :: "Landmark list \<Rightarrow> Landmark \<Rightarrow> nat \<Rightarrow> bool" where
  "isEx l tip mcpIdx =
     (let wrist = l ! 0;
          distTip = hypot (lx tip - lx wrist) (ly tip - ly wrist);
          distMcp = hypot (lx (l ! mcpIdx) - lx wrist) (ly (l ! mcpIdx) - ly wrist)
      in distTip > distMcp * 1.1)"

definition iE :: "Landmark list \<Rightarrow> bool" where "iE l = isEx l (l ! 8) 5"
definition mE :: "Landmark list \<Rightarrow> bool" where "mE l = isEx l (l ! 12) 9"
definition rE :: "Landmark list \<Rightarrow> bool" where "rE l = isEx l (l ! 16) 13"
definition pE :: "Landmark list \<Rightarrow> bool" where "pE l = isEx l (l ! 20) 17"

definition tE :: "Landmark list \<Rightarrow> bool" where
  "tE l = (let wrist = l ! 0; tTip = l ! 4 in
     hypot (lx tTip - lx wrist) (ly tTip - ly wrist)
       > hypot (lx (l ! 3) - lx wrist) (ly (l ! 3) - ly wrist) * 1.2)"

definition tE_Legacy :: "Landmark list \<Rightarrow> bool" where
  "tE_Legacy l = (let wrist = l ! 0; tTip = l ! 4 in
     hypot (lx tTip - lx wrist) (ly tTip - ly wrist)
       > hypot (lx (l ! 3) - lx wrist) (ly (l ! 3) - ly wrist) * 1.05)"

definition pinchDist :: "Landmark list \<Rightarrow> real" where
  "pinchDist l = (let tTip = l ! 4; iTip = l ! 8 in
     hypot (lx tTip - lx iTip) (ly tTip - ly iTip))"

definition thumbPointingUp :: "Landmark list \<Rightarrow> bool" where
  "thumbPointingUp l = (let tTip = l ! 4; tIP = l ! 3; tMCP = l ! 2 in
     ly tTip < ly tIP \<and> ly tIP < ly tMCP)"

definition fingersCurled :: "Landmark list \<Rightarrow> bool" where
  "fingersCurled l = (\<not> iE l \<and> \<not> mE l \<and> \<not> rE l \<and> \<not> pE l)"

text \<open>The if/else-if chain that assigns \<^verbatim>\<open>gest\<close>, in the order of the source.\<close>

definition classifyGesture :: "Landmark list \<Rightarrow> GestureType" where
  "classifyGesture l =
     (if pinchDist l < 0.06 \<and> mE l \<and> rE l \<and> pE l then PINCH
      else if fingersCurled l \<and> tE l \<and> thumbPointingUp l then THUMBS_UP
      else if \<not> iE l \<and> \<not> mE l \<and> \<not> rE l \<and> \<not> pE l then FIST
      else if iE l \<and> mE l \<and> rE l \<and> pE l then OPEN_PALM
      else if tE_Legacy l \<and> iE l \<and> \<not> pE l then L_SHAPE
      else NONE)"

subsection \<open>The branches of the chain as rules\<close>

text \<open>
  The condition of each branch of the chain above, by the class the branch assigns
  (the final \<^verbatim>\<open>else\<close> has none), the order of the branches, the first class of a
  list whose branch condition holds, and the position of a class in the order.
\<close>

fun branchCond :: "GestureType \<Rightarrow> Landmark list \<Rightarrow> bool" where
  "branchCond PINCH l = (pinchDist l < 0.06 \<and> mE l \<and> rE l \<and> pE l)"
| "branchCond THUMBS_UP l = (fingersCurled l \<and> tE l \<and> thumbPointingUp l)"
| "branchCond FIST l = (\<not> iE l \<and> \<not> mE l \<and> \<not> rE l \<and> \<not> pE l)"
| "branchCond OPEN_PALM l = (iE l \<and> mE l \<and> rE l \<and> pE l)"
| "branchCond L_SHAPE l = (tE_Legacy l \<and> iE l \<and> \<not> pE l)"
| "branchCond NONE l = False"

definition priorityOrder :: "GestureType list" where
  "priorityOrder = [PINCH, THUMBS_UP, FIST, OPEN_PALM, L_SHAPE]"

fun firstMatch :: "GestureType list \<Rightarrow> Landmark list \<Rightarrow> GestureType" where
  "firstMatch [] l = NONE"
| "firstMatch (g # gs) l = (if branchCond g l then g else firstMatch gs l)"

fun rank :: "GestureType \<Rightarrow> nat" where
  "rank PINCH = 0"
| "rank THUMBS_UP = 1"
| "rank FIST = 2"
| "rank OPEN_PALM = 3"
| "rank L_SHAPE = 4"
| "rank NONE = 5"

subsection \<open>The rule table of the specification\<close>

text \<open>
  The condition of each gesture class as section 4.2 of the specification words it:
  PINCH is a thumb-to-index-tip distance below 0.06 with middle, ring and little finger
  extended; THUMBS_UP is the thumb extended under the 1.2 rule, all four fingers curled
  and the thumb tip above the IP joint and above the MCP joint (a smaller vertical
  coordinate; nothing is said about the IP joint against the MCP joint); FIST is all
  four fingers curled; OPEN_PALM is all four fingers extended; L_SHAPE is the thumb
  extended under the 1.05 rule, the index extended and the little finger not extended.
  \<open>NONE\<close> is the final "else" and has no condition of its own.
\<close>

fun ruleCond :: "GestureType \<Rightarrow> Landmark list \<Rightarrow> bool" where
  "ruleCond PINCH l = (pinchDist l < 0.06 \<and> mE l \<and> rE l \<and> pE l)"
| "ruleCond THUMBS_UP l =
     (tE l \<and> (\<not> iE l \<and> \<not> mE l \<and> \<not> rE l \<and> \<not> pE l)
      \<and> ly (l ! 4) < ly (l ! 3) \<and> ly (l ! 4) < ly (l ! 2))"
| "ruleCond FIST l = (\<not> iE l \<and> \<not> mE l \<and> \<not> rE l \<and> \<not> pE l)"
| "ruleCond OPEN_PALM l = (iE l \<and> mE l \<and> rE l \<and> pE l)"
| "ruleCond L_SHAPE l = (tE_Legacy l \<and> iE l \<and> \<not> pE l)"
| "ruleCond NONE l = False"

text \<open>
  The THUMBS_UP condition as the specification words it: the thumb tip is above the IP
  joint and above the MCP joint (nothing is said about IP against MCP).
\<close>

definition thumbsUpSpec :: "Landmark list \<Rightarrow> bool" where
  "thumbsUpSpec l =
     (\<not> (pinchDist l < 0.06 \<and> mE l \<and> rE l \<and> pE l) \<and> tE l \<and> fingersCurled l
      \<and> ly (l ! 4) < ly (l ! 3) \<and> ly (l ! 4) < ly (l ! 2))"

section \<open>Particles and formation targets\<close>

text \<open>
  A \<^verbatim>\<open>Particle\<close> of \<^verbatim>\<open>types.ts\<close>. The render object is reduced to the one property
  the application logic writes, \<^verbatim>\<open>mesh.visible\<close>; velocity and spin are not read by
  any operation modelled here and are left out.
\<close>

record Particle =
  ptype :: ParticleType
  treePos :: Vector3
  scatterPos :: Vector3
  textPos :: Vector3
  isPhoto :: bool
  visible :: bool

definition PARTICLE_COUNT :: nat where "PARTICLE_COUNT = 600"
definition LIGHT_PARTICLE_COUNT :: nat where "LIGHT_PARTICLE_COUNT = 600"
definition SMALL_STAR_COUNT :: nat where "SMALL_STAR_COUNT = 150"
definition TREE_HEIGHT :: real where "TREE_HEIGHT = 55"
definition TREE_BASE_RADIUS :: real where "TREE_BASE_RADIUS = 22"
definition SCATTER_RADIUS :: real where "SCATTER_RADIUS = 75"

definition vec :: "real \<Rightarrow> real \<Rightarrow> real \<Rightarrow> Vector3" where
  "vec a b c = \<lparr>vx = a, vy = b, vz = c\<rparr>"

text \<open>\<^verbatim>\<open>new THREE.Vector3()\<close>\<close>

definition origin :: Vector3 where
  "origin = vec 0 0 0"

text \<open>
  \<^verbatim>\<open>Math.random()\<close> is a stream of draws: a function from the number of the call to
  its result, each in \<open>[0, 1)\<close>. A block that makes \<open>k\<close> calls reads the draws
  \<open>0 .. k - 1\<close> in the order of the source and passes on the stream shifted by \<open>k\<close>.
\<close>

definition shift :: "nat \<Rightarrow> (nat \<Rightarrow> real) \<Rightarrow> (nat \<Rightarrow> real)" where
  "shift k rnd = (\<lambda>n. rnd (n + k))"

definition unitDraws :: "(nat \<Rightarrow> real) \<Rightarrow> bool" where
  "unitDraws rnd = (\<forall>n. 0 \<le> rnd n \<and> rnd n < 1)"

subsection \<open>Tree targets\<close>

text \<open>
  The tree target of the three construction loops (scene init). The loops differ in the
  exponent of the height bias \<open>e\<close> and in the radial fraction \<open>lo + hi * sqrt r\<close>;
  the five draws are, in source order, the height, the angle and the fraction of the
  x coordinate, the angle and the fraction of the z coordinate.
  \<^verbatim>\<open>
  const hN = Math.pow(Math.random(), e); const y = (hN * TREE_HEIGHT) - (TREE_HEIGHT / 2);
  const mR = TREE_BASE_RADIUS * (1.0 - (y + TREE_HEIGHT/2) / TREE_HEIGHT);
  const tP = new THREE.Vector3(Math.cos(Math.random()*6.28)*mR*(lo+hi*Math.sqrt(Math.random())), y,
                               Math.sin(Math.random()*6.28)*mR*(lo+hi*Math.sqrt(Math.random())));
  \<close>
\<close>

definition coneTarget :: "real \<Rightarrow> real \<Rightarrow> real \<Rightarrow> real \<Rightarrow> real \<Rightarrow> real \<Rightarrow> real \<Rightarrow> real \<Rightarrow> Vector3" where
  "coneTarget e lo hi rh a1 f1 a2 f2 =
     (let hN = rh powr e;
          y = (hN * TREE_HEIGHT) - (TREE_HEIGHT / 2);
          mR = TREE_BASE_RADIUS * (1.0 - (y + TREE_HEIGHT / 2) / TREE_HEIGHT)
      in vec (cos (a1 * 6.28) * mR * (lo + hi * sqrt f1)) y
             (sin (a2 * 6.28) * mR * (lo + hi * sqrt f2)))"

definition lightTreePos :: "real \<Rightarrow> real \<Rightarrow> real \<Rightarrow> real \<Rightarrow> real \<Rightarrow> Vector3" where
  "lightTreePos = coneTarget 0.95 0.2 0.8"

definition smallStarTreePos :: "real \<Rightarrow> real \<Rightarrow> real \<Rightarrow> real \<Rightarrow> real \<Rightarrow> Vector3" where
  "smallStarTreePos = coneTarget 0.9 0.1 0.9"

definition ornamentTreePos :: "real \<Rightarrow> real \<Rightarrow> real \<Rightarrow> real \<Rightarrow> real \<Rightarrow> Vector3" where
  "ornamentTreePos = coneTarget 0.9 0.2 0.8"

text \<open>The tree target of a captured photo (takePhoto, "Tree Target").\<close>

definition photoTreePos :: "real \<Rightarrow> real \<Rightarrow> real \<Rightarrow> Vector3" where
  "photoTreePos r1 r2 r3 =
     (let normalizedHeight = (r1 * 0.9) - 0.45;
          h = normalizedHeight * TREE_HEIGHT;
          maxRadiusAtHeight = (1 - (h + TREE_HEIGHT / 2) / TREE_HEIGHT) * TREE_BASE_RADIUS;
          radius = maxRadiusAtHeight * (0.4 + r2 * 0.7) + 1.0;
          angle = r3 * 6.28
      in vec (cos angle * radius) h (sin angle * radius))"

text \<open>
  The cone of the specification: apex up, height \<open>TREE_HEIGHT\<close> centred on the origin,
  base radius \<open>TREE_BASE_RADIUS\<close>. \<open>coneRadius y\<close> is its radius at height \<open>y\<close>.
\<close>

definition coneRadius :: "real \<Rightarrow> real" where
  "coneRadius y = TREE_BASE_RADIUS * (1 - (y + TREE_HEIGHT / 2) / TREE_HEIGHT)"

definition insideCone :: "Vector3 \<Rightarrow> bool" where
  "insideCone v =
     (- (TREE_HEIGHT / 2) \<le> vy v \<and> vy v \<le> TREE_HEIGHT / 2
      \<and> sqrt (vx v * vx v + vz v * vz v) \<le> coneRadius (vy v))"

subsection \<open>Text targets (getVavePoints, the shuffle, getNextTextPos)\<close>

text \<open>
  The bitmap is an input: \<open>alpha x y\<close> is the alpha byte of pixel \<open>(x, y)\<close> after
  the text was drawn. The scan visits every second row and column.
\<close>

definition scanPixels :: "(nat \<Rightarrow> nat \<Rightarrow> nat) \<Rightarrow> (nat \<times> nat) list" where
  "scanPixels alpha =
     concat (map (\<lambda>y. concat (map (\<lambda>x. if alpha x y > 128 then [(x, y)] else [])
                                  (map (\<lambda>k. 2 * k) [0..<150])))
                 (map (\<lambda>k. 2 * k) [0..<60]))"

definition glyphPoint :: "(nat \<times> nat) list \<Rightarrow> real \<Rightarrow> real \<Rightarrow> Vector3" where
  "glyphPoint validPixels r1 r2 =
     (let p = validPixels ! nat \<lfloor>r1 * real (length validPixels)\<rfloor>;
          scale = 0.5
      in vec ((real (fst p) - 150) * scale)
             (- (real (snd p) - 60) * scale + 5)
             ((r2 - 0.5) * 6))"

text \<open>
  \<open>ctx = None\<close>: the canvas gave no 2D context. \<open>ctx = Some alpha\<close>: it did, and
  \<open>alpha\<close> is what was drawn. Point \<open>i\<close> reads the draws \<open>2 i\<close> and \<open>2 i + 1\<close>.
\<close>

definition getVavePoints :: "nat \<Rightarrow> (nat \<Rightarrow> nat \<Rightarrow> nat) option \<Rightarrow> (nat \<Rightarrow> real) \<Rightarrow> Vector3 list" where
  "getVavePoints count ctx rnd =
     (case ctx of
        None \<Rightarrow> replicate count origin
      | Some alpha \<Rightarrow>
          let validPixels = scanPixels alpha in
          if length validPixels = 0 then replicate count origin
          else map (\<lambda>i. glyphPoint validPixels (rnd (2 * i)) (rnd (2 * i + 1))) [0..<count])"

text \<open>The number of draws \<open>getVavePoints\<close> makes.\<close>

definition vaveDraws :: "nat \<Rightarrow> (nat \<Rightarrow> nat \<Rightarrow> nat) option \<Rightarrow> nat" where
  "vaveDraws count ctx =
     (case ctx of
        None \<Rightarrow> 0
      | Some alpha \<Rightarrow> if length (scanPixels alpha) = 0 then 0 else 2 * count)"

text \<open>
  The Fisher-Yates loop \<^verbatim>\<open>for (let i = n - 1; i > 0; i--)\<close>: \<open>shuffleFrom i\<close> runs the
  iterations \<open>i, i - 1, .., 1\<close>, one draw each.
\<close>

primrec shuffleFrom :: "nat \<Rightarrow> (nat \<Rightarrow> real) \<Rightarrow> 'a list \<Rightarrow> 'a list" where
  "shuffleFrom 0 rnd xs = xs"
| "shuffleFrom (Suc k) rnd xs =
     (let i = Suc k;
          j = nat \<lfloor>rnd 0 * real (i + 1)\<rfloor>
      in shuffleFrom k (shift 1 rnd) (xs[i := xs ! j, j := xs ! i]))"

definition shuffle :: "(nat \<Rightarrow> real) \<Rightarrow> 'a list \<Rightarrow> 'a list" where
  "shuffle rnd xs = shuffleFrom (length xs - 1) rnd xs"

text \<open>The state of scene construction: the draws left, \<^verbatim>\<open>vaveIndex\<close>, the particles pushed so far.\<close>

record Build =
  draws :: "nat \<Rightarrow> real"
  vaveIndex :: nat
  built :: "Particle list"

definition getNextTextPos :: "Vector3 list \<Rightarrow> Build \<Rightarrow> Vector3 \<times> Build" where
  "getNextTextPos vavePoints b =
     (if vaveIndex b < length vavePoints
      then (vavePoints ! vaveIndex b, b\<lparr>vaveIndex := vaveIndex b + 1\<rparr>)
      else (origin, b))"

subsection \<open>Scene construction (the main effect)\<close>

definition addTopper :: "Vector3 list \<Rightarrow> Build \<Rightarrow> Build" where
  "addTopper vavePoints b =
     (let (tp, b1) = getNextTextPos vavePoints b
      in b1\<lparr>built := built b1 @ [\<lparr>ptype = STAR_ORNAMENT, treePos = vec 0 (TREE_HEIGHT / 2 + 5) 0,
                                   scatterPos = vec 0 75 0, textPos = tp,
                                   isPhoto = False, visible = True\<rparr>]\<rparr>)"

text \<open>One light: 11 draws (colour, height, four for the tree target, three for the
  scatter target, twinkle phase and speed).\<close>

definition addLight :: "Vector3 list \<Rightarrow> Build \<Rightarrow> Build" where
  "addLight vavePoints b =
     (let r = draws b;
          tP = lightTreePos (r 1) (r 2) (r 3) (r 4) (r 5);
          sP = vec ((r 6 - 0.5) * 170) ((r 7 - 0.5) * 170) ((r 8 - 0.5) * 170);
          (tp, b1) = getNextTextPos vavePoints b
      in b1\<lparr>draws := shift 11 r,
             built := built b1 @ [\<lparr>ptype = LIGHT, treePos = tP, scatterPos = sP, textPos = tp,
                                   isPhoto = False, visible = True\<rparr>]\<rparr>)"

text \<open>One small star: 14 draws (height, four for the tree target, three for the scatter
  target, three for the initial rotation, three for the spin).\<close>

definition addSmallStar :: "Vector3 list \<Rightarrow> Build \<Rightarrow> Build" where
  "addSmallStar vavePoints b =
     (let r = draws b;
          tP = smallStarTreePos (r 0) (r 1) (r 2) (r 3) (r 4);
          sP = vec ((r 5 - 0.5) * 160) ((r 6 - 0.5) * 160) ((r 7 - 0.5) * 160);
          (tp, b1) = getNextTextPos vavePoints b
      in b1\<lparr>draws := shift 14 r,
             built := built b1 @ [\<lparr>ptype = ORNAMENT, treePos = tP, scatterPos = sP, textPos = tp,
                                   isPhoto = False, visible = True\<rparr>]\<rparr>)"

text \<open>One ornament: 12 draws (shape, height, four for the tree target, three for the
  scatter target on the sphere shell, three for the spin).\<close>

definition addOrnament :: "Vector3 list \<Rightarrow> Build \<Rightarrow> Build" where
  "addOrnament vavePoints b =
     (let r = draws b;
          tP = ornamentTreePos (r 1) (r 2) (r 3) (r 4) (r 5);
          ph = arccos (2 * r 6 - 1);
          th = 2 * 3.14 * r 7;
          rS = SCATTER_RADIUS * (0.8 + 0.7 * r 8);
          sP = vec (rS * sin ph * cos th) (rS * sin ph * sin th) (rS * cos ph);
          (tp, b1) = getNextTextPos vavePoints b
      in b1\<lparr>draws := shift 12 r,
             built := built b1 @ [\<lparr>ptype = ORNAMENT, treePos = tP, scatterPos = sP, textPos = tp,
                                   isPhoto = False, visible = True\<rparr>]\<rparr>)"

text \<open>The topper, then the three loops, in the order of the source.\<close>

definition buildParticles :: "Vector3 list \<Rightarrow> (nat \<Rightarrow> real) \<Rightarrow> Build" where
  "buildParticles vavePoints rnd =
     ((addOrnament vavePoints ^^ PARTICLE_COUNT)
       ((addSmallStar vavePoints ^^ SMALL_STAR_COUNT)
         ((addLight vavePoints ^^ LIGHT_PARTICLE_COUNT)
           (addTopper vavePoints \<lparr>draws = rnd, vaveIndex = 0, built = []\<rparr>))))"

text \<open>The text points of the scene: generated for \<open>totalParticles\<close>, then shuffled.\<close>

definition totalParticles :: nat where
  "totalParticles = PARTICLE_COUNT + LIGHT_PARTICLE_COUNT + SMALL_STAR_COUNT + 1"

definition sceneVavePoints :: "(nat \<Rightarrow> nat \<Rightarrow> nat) option \<Rightarrow> (nat \<Rightarrow> real) \<Rightarrow> Vector3 list" where
  "sceneVavePoints ctx rnd =
     shuffle (shift (vaveDraws totalParticles ctx) rnd) (getVavePoints totalParticles ctx rnd)"

definition sceneInit :: "(nat \<Rightarrow> nat \<Rightarrow> nat) option \<Rightarrow> (nat \<Rightarrow> real) \<Rightarrow> Build" where
  "sceneInit ctx rnd =
     (let vavePoints = sceneVavePoints ctx rnd
      in buildParticles vavePoints
           (shift (vaveDraws totalParticles ctx + (length vavePoints - 1)) rnd))"

text \<open>
  A text target is glyph-derived when its x and y are the image of an opaque pixel of
  the scan under the map of \<open>getVavePoints\<close>.
\<close>

definition glyphDerived :: "(nat \<times> nat) list \<Rightarrow> Vector3 \<Rightarrow> bool" where
  "glyphDerived validPixels v =
     list_ex (\<lambda>p. vx v = (real (fst p) - 150) * 0.5 \<and> vy v = - (real (snd p) - 60) * 0.5 + 5)
       validPixels"

section \<open>Application state\<close>

text \<open>
  The React state and the refs of \<^verbatim>\<open>App\<close> as one record. A state variable and the ref
  that mirrors it (\<^verbatim>\<open>captureState\<close> and \<^verbatim>\<open>captureStateRef\<close>, \<^verbatim>\<open>appMode\<close> and
  \<^verbatim>\<open>modeRef\<close>) are one field: a state update is taken to be visible at once.
  \<^item> \<open>holdBar\<close> is the width in percent of the hold bar, \<open>None\<close> when
    \<^verbatim>\<open>holdBarRef.current\<close> is null;
  \<^item> \<open>zoomedPhoto\<close> and \<open>previewingPhoto\<close> name a particle by its index in
    \<open>particles\<close> (particles are only ever appended);
  \<^item> \<open>snapshotImage\<close> is true when the state holds an image;
  \<^item> \<open>timers\<close> are the pending \<^verbatim>\<open>setTimeout\<close> callbacks of the capture sequence with
    the time at which each is due;
  \<^item> \<open>rand\<close> is the stream of the draws \<^verbatim>\<open>Math.random()\<close> will return;
  \<^item> \<open>mainGroup\<close>, \<open>camera\<close>, \<open>landmarker\<close> say whether the ref is set,
    \<open>video\<close> is \<open>None\<close> when \<^verbatim>\<open>videoRef.current\<close> is null and otherwise the
    element's \<^verbatim>\<open>readyState\<close>, \<open>canvas2d\<close> says whether a canvas yields a 2D context.
\<close>

datatype TimerAction = CountdownTick | EndFlash | FlySequence nat | BackToIdle

record App =
  appMode :: AppMode
  captureState :: CaptureState
  countdown :: "int option"
  flash :: bool
  snapshotImage :: bool
  camMessage :: string
  currentGesture :: GestureType
  gesture :: GestureType
  rotationSpeed :: real
  holdBar :: "real option"
  lShapeHoldTime :: nat
  pinchHoldTime :: nat
  zoomedPhoto :: "nat option"
  previewingPhoto :: "nat option"
  particles :: "Particle list"
  lastCaptureTime :: int
  timers :: "(int \<times> TimerAction) list"
  rand :: "nat \<Rightarrow> real"
  isMounted :: bool
  mainGroup :: bool
  camera :: bool
  video :: "nat option"
  canvas2d :: bool
  landmarker :: bool

section \<open>Photography logic\<close>

text \<open>
  \<^verbatim>\<open>takePhoto\<close> at time \<open>now\<close>. Without scene group, camera or video element it
  returns at once. Otherwise it enters FLASH, draws the card (the video frame and the
  snapshot only when the element has a frame, \<^verbatim>\<open>readyState >= 2\<close>), pushes the new
  photo particle, hidden and held as the preview, and sets the two timers. Eight draws:
  three for the tree target, two for the text target, three for the scatter target.
\<close>

definition takePhoto :: "int \<Rightarrow> App \<Rightarrow> App" where
  "takePhoto now st =
     (if \<not> mainGroup st \<or> \<not> camera st \<or> video st = None then st
      else
        let r = rand st;
            shot = (canvas2d st \<and> (case video st of Some readyState \<Rightarrow> readyState \<ge> 2 | None \<Rightarrow> False));
            treeP = photoTreePos (r 0) (r 1) (r 2);
            textP = vec ((r 3 - 0.5) * 40) ((r 4 - 0.5) * 15) 0;
            newP = \<lparr>ptype = PHOTO, treePos = treeP,
                    scatterPos = vec ((r 5 - 0.5) * 140) ((r 6 - 0.5) * 140) ((r 7 - 0.5) * 140),
                    textPos = textP, isPhoto = True, visible = False\<rparr>;
            idx = length (particles st)
        in st\<lparr>captureState := FLASH, flash := True, countdown := None, camMessage := '''',
               snapshotImage := (if shot then True else snapshotImage st),
               particles := particles st @ [newP],
               previewingPhoto := Some idx,
               rand := shift 8 r,
               timers := timers st @ [(now + 150, EndFlash), (now + 4500, FlySequence idx)]\<rparr>)"

text \<open>
  The effect on \<^verbatim>\<open>[countdown, captureState]\<close>: the cleanup of the previous run clears
  its pending tick; then, in COUNTDOWN with a countdown value, a positive value sets the
  next one-second tick and any other value takes the photo.
\<close>

definition cleanupTicks :: "App \<Rightarrow> App" where
  "cleanupTicks st = st\<lparr>timers := filter (\<lambda>ta. snd ta \<noteq> CountdownTick) (timers st)\<rparr>"

definition countdownEffect :: "int \<Rightarrow> App \<Rightarrow> App" where
  "countdownEffect now st0 =
     (let st = cleanupTicks st0 in
      if captureState st = COUNTDOWN then
        (case countdown st of
           None \<Rightarrow> st
         | Some c \<Rightarrow>
             if c > 0 then st\<lparr>timers := timers st @ [(now + 1000, CountdownTick)]\<rparr>
             else takePhoto now st)
      else st)"

text \<open>React runs the effect after an update that changed one of its dependencies.\<close>

definition rerender :: "int \<Rightarrow> App \<Rightarrow> App \<Rightarrow> App" where
  "rerender now old new =
     (if countdown new \<noteq> countdown old \<or> captureState new \<noteq> captureState old
      then countdownEffect now new else new)"

text \<open>
  \<^verbatim>\<open>triggerCountdown\<close>. The function is a closure: \<open>seen\<close> is the value of
  \<^verbatim>\<open>captureState\<close> in the render that created it. The Snap button calls the closure of
  the current render (\<open>clickSnap\<close>); \<^verbatim>\<open>predictLoop\<close> was created by the mount effect and
  calls the closure of the first render, which saw \<open>IDLE\<close>. \<^verbatim>\<open>lastCaptureTimeRef\<close> is a
  ref and is read fresh in both.
\<close>

definition triggerCountdown :: "CaptureState \<Rightarrow> int \<Rightarrow> App \<Rightarrow> App" where
  "triggerCountdown seen now st =
     (if seen \<noteq> IDLE then st
      else if now - lastCaptureTime st < 4000 then st
      else rerender now st
             (st\<lparr>captureState := COUNTDOWN, countdown := Some 3, camMessage := ''SMILE!''\<rparr>))"

definition clickSnap :: "int \<Rightarrow> App \<Rightarrow> App" where
  "clickSnap now st = triggerCountdown (captureState st) now st"

text \<open>
  The timer callbacks, run at time \<open>now\<close>: the countdown tick of the effect, the
  150 ms and the 4500 ms callbacks of \<^verbatim>\<open>takePhoto\<close> (the second one for the particle it
  pushed), and the 1000 ms callback set by the fly sequence.
\<close>

fun fire :: "int \<Rightarrow> TimerAction \<Rightarrow> App \<Rightarrow> App" where
  "fire now CountdownTick st =
     rerender now st (st\<lparr>countdown := Some (case countdown st of Some c \<Rightarrow> c - 1 | None \<Rightarrow> 0)\<rparr>)"
| "fire now EndFlash st =
     rerender now st (st\<lparr>flash := False, captureState := DEVELOPING\<rparr>)"
| "fire now (FlySequence i) st =
     rerender now st
       (st\<lparr>captureState := FLYING, snapshotImage := False,
            particles := (if i < length (particles st)
                          then (particles st)[i := (particles st ! i)\<lparr>visible := True\<rparr>]
                          else particles st),
            previewingPhoto := None,
            lastCaptureTime := now,
            gesture := NONE, currentGesture := NONE,
            lShapeHoldTime := 0,
            timers := timers st @ [(now + 1000, BackToIdle)]\<rparr>)"
| "fire now BackToIdle st =
     rerender now st (st\<lparr>captureState := IDLE\<rparr>)"

subsection \<open>Running the timers\<close>

text \<open>
  Timers are taken to fire exactly when due, the earliest first and, among equals, in
  the order they were set. \<open>advance t\<close> runs every callback due by time \<open>t\<close>,
  including those set by the callbacks it runs.
\<close>

fun nextDue :: "(int \<times> TimerAction) list \<Rightarrow> (int \<times> TimerAction) option" where
  "nextDue [] = None"
| "nextDue (ta # tas) =
     (case nextDue tas of
        None \<Rightarrow> Some ta
      | Some tb \<Rightarrow> if fst tb < fst ta then Some tb else Some ta)"

text \<open>
  Termination: every callback sets fewer callbacks than it stands for. A tick stands
  for the rest of its countdown and the capture sequence behind it.
\<close>

fun weight :: "int option \<Rightarrow> int \<times> TimerAction \<Rightarrow> nat" where
  "weight c (d, CountdownTick) = 4 + (case c of None \<Rightarrow> 0 | Some k \<Rightarrow> nat k)"
| "weight c (d, EndFlash) = 1"
| "weight c (d, FlySequence i) = 2"
| "weight c (d, BackToIdle) = 1"

definition potential :: "App \<Rightarrow> nat" where
  "potential st = sum_list (map (weight (countdown st)) (timers st))"

definition nonTickWeight :: "App \<Rightarrow> nat" where
  "nonTickWeight st =
     sum_list (map (weight None) (filter (\<lambda>ta. snd ta \<noteq> CountdownTick) (timers st)))"

function advance :: "int \<Rightarrow> App \<Rightarrow> App" where
  "advance t st =
     (case nextDue (timers st) of
        None \<Rightarrow> st
      | Some (due, a) \<Rightarrow>
          if due \<le> t then advance t (fire due a (st\<lparr>timers := remove1 (due, a) (timers st)\<rparr>))
          else st)"
  by pat_completeness auto
termination
proof (relation "measure (\<lambda>(t, st). potential st)")
  show "wf (measure (\<lambda>(t, st). potential st))" by simp
next
  fix t and st :: App and x2 x y
  assume n: "nextDue (timers st) = Some x2" and x2: "(x, y) = x2" and "x \<le> t"
  have nextDue_mem: "ta \<in> set tas" if "nextDue tas = Some ta" for tas ta
    using that by (induction tas arbitrary: ta) (auto split: option.splits if_splits)
  have weight_filter_le:
    "sum_list (map (weight c) (filter P tas)) \<le> sum_list (map (weight c) tas)" for c P tas
    by (induction tas) auto
  have weight_noticks:
    "sum_list (map (weight c) (filter (\<lambda>ta. snd ta \<noteq> CountdownTick) tas))
     = sum_list (map (weight c') (filter (\<lambda>ta. snd ta \<noteq> CountdownTick) tas))" for c c' tas
  proof (induction tas)
    case Nil
    then show ?case by simp
  next
    case (Cons ta tas)
    obtain d a where "ta = (d, a)" by (cases ta)
    with Cons show ?case by (cases a) auto
  qed
  have weight_None_le: "weight None ta \<le> weight c ta" for ta c
  proof -
    obtain d a where "ta = (d, a)" by (cases ta)
    then show ?thesis by (cases a) auto
  qed
  have potential_remove1:
    "potential (s\<lparr>timers := remove1 ta (timers s)\<rparr>) + weight (countdown s) ta = potential s"
    if "ta \<in> set (timers s)" for ta and s :: App
    using that by (simp add: potential_def sum_list_map_remove1 add.commute)
  have nonTickWeight_le: "nonTickWeight s \<le> potential s" for s :: App
  proof -
    have "nonTickWeight s
          = sum_list (map (weight (countdown s)) (filter (\<lambda>ta. snd ta \<noteq> CountdownTick) (timers s)))"
      unfolding nonTickWeight_def by (rule weight_noticks)
    also have "\<dots> \<le> potential s"
      unfolding potential_def by (rule weight_filter_le)
    finally show ?thesis .
  qed
  have potential_cleanupTicks: "potential (cleanupTicks s) = nonTickWeight s" for s :: App
    unfolding potential_def nonTickWeight_def cleanupTicks_def
    by (simp add: weight_noticks [of "countdown s" _ None])
  have potential_cleanupTicks_le: "potential (cleanupTicks s) \<le> potential s" for s :: App
    by (simp add: potential_cleanupTicks nonTickWeight_le)
  have countdownEffect_other: "countdownEffect now s = cleanupTicks s"
    if "captureState s \<noteq> COUNTDOWN" for now and s :: App
    using that by (simp add: countdownEffect_def Let_def cleanupTicks_def)
  have potential_takePhoto: "potential (takePhoto now s) \<le> potential s + 3" for now and s :: App
  proof (cases "\<not> mainGroup s \<or> \<not> camera s \<or> video s = None")
    case True
    then show ?thesis by (simp add: takePhoto_def)
  next
    case False
    have "sum_list (map (weight None) (timers s)) \<le> sum_list (map (weight (countdown s)) (timers s))"
      by (rule sum_list_mono) (rule weight_None_le)
    with False show ?thesis
      by (simp add: takePhoto_def potential_def Let_def)
  qed
  have potential_countdownEffect:
    "potential (countdownEffect now s)
     \<le> nonTickWeight s + (case countdown s of Some c \<Rightarrow> if c > 0 then 4 + nat c else 3 | None \<Rightarrow> 0)"
    for now and s :: App
  proof -
    let ?s = "cleanupTicks s"
    have p: "potential ?s = nonTickWeight s" by (rule potential_cleanupTicks)
    have c: "countdown ?s = countdown s" "captureState ?s = captureState s"
      by (simp_all add: cleanupTicks_def)
    show ?thesis
    proof (cases "captureState s = COUNTDOWN")
      case False
      then show ?thesis using p c by (simp add: countdownEffect_def Let_def)
    next
      case True
      show ?thesis
      proof (cases "countdown s")
        case None
        then show ?thesis using True p c by (simp add: countdownEffect_def Let_def)
      next
        case (Some k)
        show ?thesis
        proof (cases "k > 0")
          case True
          have "potential (?s\<lparr>timers := timers ?s @ [(now + 1000, CountdownTick)]\<rparr>)
                = potential ?s + (4 + nat k)"
            using Some c by (simp add: potential_def)
          then show ?thesis
            using True Some \<open>captureState s = COUNTDOWN\<close> p c
            by (simp add: countdownEffect_def Let_def)
        next
          case False
          have "potential (takePhoto now ?s) \<le> potential ?s + 3" by (rule potential_takePhoto)
          then show ?thesis
            using False Some \<open>captureState s = COUNTDOWN\<close> p c
            by (simp add: countdownEffect_def Let_def)
        qed
      qed
    qed
  qed
  have potential_fire:
    "potential (fire now a s) < potential s + weight (countdown s) (d, a)"
    for now a d and s :: App
  proof (cases a)
    case CountdownTick
    let ?n = "s\<lparr>countdown := Some (case countdown s of Some c \<Rightarrow> c - 1 | None \<Rightarrow> 0)\<rparr>"
    have ch: "countdown ?n \<noteq> countdown s" by (auto split: option.splits)
    have nt: "nonTickWeight ?n = nonTickWeight s" by (simp add: nonTickWeight_def)
    have "potential (fire now a s) = potential (countdownEffect now ?n)"
      using CountdownTick ch by (simp add: rerender_def)
    also have "\<dots> \<le> nonTickWeight ?n
          + (case countdown ?n of Some c \<Rightarrow> if c > 0 then 4 + nat c else 3 | None \<Rightarrow> 0)"
      by (rule potential_countdownEffect)
    also have "\<dots> < nonTickWeight s + weight (countdown s) (d, CountdownTick)"
      using nt by (auto split: option.splits)
    also have "\<dots> \<le> potential s + weight (countdown s) (d, CountdownTick)"
      using nonTickWeight_le [of s] by simp
    finally show ?thesis using CountdownTick by simp
  next
    case EndFlash
    let ?n = "s\<lparr>flash := False, captureState := DEVELOPING\<rparr>"
    have pn: "potential ?n = potential s" by (simp add: potential_def)
    have "potential (countdownEffect now ?n) \<le> potential ?n"
      by (simp add: countdownEffect_other potential_cleanupTicks_le)
    then show ?thesis using EndFlash pn by (simp add: rerender_def)
  next
    case (FlySequence i)
    let ?n = "s\<lparr>captureState := FLYING, snapshotImage := False,
              particles := (if i < length (particles s)
                            then (particles s)[i := (particles s ! i)\<lparr>visible := True\<rparr>]
                            else particles s),
              previewingPhoto := None,
              lastCaptureTime := now,
              gesture := NONE, currentGesture := NONE,
              lShapeHoldTime := 0,
              timers := timers s @ [(now + 1000, BackToIdle)]\<rparr>"
    have pn: "potential ?n = potential s + 1" by (simp add: potential_def)
    have "potential (countdownEffect now ?n) \<le> potential ?n"
      by (simp add: countdownEffect_other potential_cleanupTicks_le)
    then show ?thesis using FlySequence pn by (simp add: rerender_def)
  next
    case BackToIdle
    let ?n = "s\<lparr>captureState := IDLE\<rparr>"
    have pn: "potential ?n = potential s" by (simp add: potential_def)
    have "potential (countdownEffect now ?n) \<le> potential ?n"
      by (simp add: countdownEffect_other potential_cleanupTicks_le)
    then show ?thesis using BackToIdle pn by (simp add: rerender_def)
  qed
  have mem: "(x, y) \<in> set (timers st)" using nextDue_mem n x2 by simp
  let ?st = "st\<lparr>timers := remove1 (x, y) (timers st)\<rparr>"
  have "potential (fire x y ?st) < potential ?st + weight (countdown ?st) (x, y)"
    by (rule potential_fire)
  also have "\<dots> = potential st" using potential_remove1 [OF mem] by simp
  finally show "((t, fire x y ?st), (t, st)) \<in> measure (\<lambda>(t, st). potential st)"
    by simp
qed

declare advance.simps [simp del]

section \<open>Prediction loop\<close>

text \<open>What \<^verbatim>\<open>detectForVideo\<close> did in a frame: it threw, it found no hand, or it
  returned the landmarks of one hand.\<close>

datatype Detection = Throws | NoHand | Hand "Landmark list"

text \<open>\<^verbatim>\<open>particlesRef.current.filter(p => p.isPhoto)\<close>, as indices into the particle list.\<close>

definition photoIndices :: "Particle list \<Rightarrow> nat list" where
  "photoIndices ps = filter (\<lambda>i. isPhoto (ps ! i)) [0..<length ps]"

text \<open>The zoom pick of a completed pinch hold: one draw, only when a photo exists.\<close>

definition pickZoom :: "App \<Rightarrow> App" where
  "pickZoom st =
     (let phs = photoIndices (particles st) in
      if length phs > 0 then
        (let k = nat \<lfloor>rand st 0 * real (length phs)\<rfloor>
         in st\<lparr>zoomedPhoto := (if k < length phs then Some (phs ! k) else None),
                rand := shift 1 (rand st)\<rparr>)
      else st)"

text \<open>The if/else-if chain on \<^verbatim>\<open>gest\<close> that follows the classification.\<close>

definition handleGesture :: "int \<Rightarrow> GestureType \<Rightarrow> App \<Rightarrow> App" where
  "handleGesture now gest st =
     (if gest = OPEN_PALM then
        st\<lparr>pinchHoldTime := 0, appMode := SCATTER, zoomedPhoto := None\<rparr>
      else if gest = FIST then
        st\<lparr>pinchHoldTime := 0, appMode := TREE, zoomedPhoto := None\<rparr>
      else if gest = THUMBS_UP then
        st\<lparr>pinchHoldTime := 0, appMode := TEXT, zoomedPhoto := None\<rparr>
      else if gest = PINCH then
        (let st1 = st\<lparr>pinchHoldTime := pinchHoldTime st + 1\<rparr>
         in if pinchHoldTime st1 > 15 \<and> zoomedPhoto st1 = None then pickZoom st1 else st1)
      else if gest = L_SHAPE then
        (let st1 = st\<lparr>pinchHoldTime := 0, camMessage := ''HOLD STEADY...'',
                       lShapeHoldTime := lShapeHoldTime st + 1\<rparr>;
             st2 = (if lShapeHoldTime st1 > 30 then triggerCountdown IDLE now st1 else st1);
             pct = min (real (lShapeHoldTime st2) / 30 * 100) 100
         in st2\<lparr>holdBar := map_option (\<lambda>w. pct) (holdBar st2)\<rparr>)
      else
        st\<lparr>lShapeHoldTime := 0, pinchHoldTime := 0,
            holdBar := map_option (\<lambda>w. 0) (holdBar st),
            camMessage := ''NOEL ELEGANCE''\<rparr>)"

text \<open>
  One run of \<^verbatim>\<open>predictLoop\<close> at time \<open>now\<close>. A hand with fewer than 21 landmarks
  makes the feature computation throw before anything is written; like an exception of
  the detector it is caught and the frame changes nothing.
\<close>

definition predictLoop :: "int \<Rightarrow> Detection \<Rightarrow> App \<Rightarrow> App" where
  "predictLoop now det st =
     (if \<not> isMounted st then st
      else if (case video st of Some readyState \<Rightarrow> readyState \<ge> 2 | None \<Rightarrow> False) \<and> landmarker st then
        (if captureState st \<noteq> IDLE \<or> now - lastCaptureTime st < 2000 then st
         else
           (case det of
              Throws \<Rightarrow> st
            | NoHand \<Rightarrow> st\<lparr>currentGesture := NONE, holdBar := map_option (\<lambda>w. 0) (holdBar st)\<rparr>
            | Hand l \<Rightarrow>
                if length l < 21 then st
                else
                  (let gest = classifyGesture l;
                       st1 = st\<lparr>gesture := gest, currentGesture := gest,
                                 rotationSpeed := (0.5 - lx (l ! 0)) * 0.035\<rparr>
                   in handleGesture now gest st1)))
      else st)"

text \<open>A frame is processed when the loop gets as far as the detector.\<close>

definition gateOpen :: "int \<Rightarrow> App \<Rightarrow> bool" where
  "gateOpen now st =
     (isMounted st \<and> (case video st of Some readyState \<Rightarrow> readyState \<ge> 2 | None \<Rightarrow> False)
      \<and> landmarker st \<and> captureState st = IDLE \<and> \<not> now - lastCaptureTime st < 2000)"

section \<open>Events\<close>

text \<open>
  What happens to the application after start-up: an animation frame of the prediction
  loop with the detector's answer, or a click on the Snap button, each at a time; the
  timers due by then run first.
\<close>

datatype Event = Frame Detection | Click

definition step :: "int \<times> Event \<Rightarrow> App \<Rightarrow> App" where
  "step te st =
     (let now = fst te; st1 = advance now st in
      case snd te of
        Frame det \<Rightarrow> predictLoop now det st1
      | Click \<Rightarrow> clickSnap now st1)"

definition exec :: "(int \<times> Event) list \<Rightarrow> App \<Rightarrow> App" where
  "exec evs st = fold step evs st"

text \<open>The mode a mode gesture selects.\<close>

fun modeOf :: "GestureType \<Rightarrow> AppMode option" where
  "modeOf OPEN_PALM = Some SCATTER"
| "modeOf FIST = Some TREE"
| "modeOf THUMBS_UP = Some TEXT"
| "modeOf g = None"

text \<open>
  The application once loading is over: tree mode, nothing pending, all resources in
  place, the particles of the scene as constructed.
\<close>

definition readyApp :: "Particle list \<Rightarrow> (nat \<Rightarrow> real) \<Rightarrow> App" where
  "readyApp ps rnd =
     \<lparr>appMode = TREE, captureState = IDLE, countdown = None, flash = False,
      snapshotImage = False, camMessage = ''NOEL ELEGANCE'', currentGesture = NONE,
      gesture = NONE, rotationSpeed = 0.002, holdBar = Some 0, lShapeHoldTime = 0,
      pinchHoldTime = 0, zoomedPhoto = None, previewingPhoto = None, particles = ps,
      lastCaptureTime = 0, timers = [], rand = rnd, isMounted = True, mainGroup = True,
      camera = True, video = Some 4, canvas2d = True, landmarker = True\<rparr>"

text \<open>A concrete start: no 2D context problems, every draw one half.\<close>

definition app0 :: App where
  "app0 = readyApp (built (sceneInit None (\<lambda>n. 1 / 2))) (\<lambda>n. 1 / 2)"

subsection \<open>Concrete hands\<close>

text \<open>
  A 21-point hand from the twelve landmarks the classifier reads; the other nine
  indices repeat the wrist.
\<close>

definition pt :: "real \<Rightarrow> real \<Rightarrow> Landmark" where
  "pt a b = \<lparr>lx = a, ly = b\<rparr>"

definition mkHand ::
  "Landmark \<Rightarrow> Landmark \<Rightarrow> Landmark \<Rightarrow> Landmark \<Rightarrow> Landmark \<Rightarrow> Landmark \<Rightarrow> Landmark
   \<Rightarrow> Landmark \<Rightarrow> Landmark \<Rightarrow> Landmark \<Rightarrow> Landmark \<Rightarrow> Landmark \<Rightarrow> Landmark list" where
  "mkHand wrist tMCP tIP tTip iMCP iTip mMCP mTip rMCP rTip pMCP pTip =
     [wrist, wrist, tMCP, tIP, tTip, iMCP, wrist, wrist, iTip, mMCP, wrist, wrist, mTip,
      rMCP, wrist, wrist, rTip, pMCP, wrist, wrist, pTip]"

text \<open>All four fingers extended, thumb tip touching the index tip.\<close>

definition handPinchPalm :: "Landmark list" where
  "handPinchPalm = mkHand (pt 0.5 0.9) (pt 0.5 0.8) (pt 0.5 0.7) (pt 0.5 0.4)
     (pt 0.5 0.7) (pt 0.5 0.4) (pt 0.5 0.7) (pt 0.5 0.4)
     (pt 0.5 0.7) (pt 0.5 0.4) (pt 0.5 0.7) (pt 0.5 0.4)"

text \<open>Fingers curled, thumb straight up: tip above IP above MCP.\<close>

definition handThumbsUp :: "Landmark list" where
  "handThumbsUp = mkHand (pt 0.5 0.9) (pt 0.5 0.7) (pt 0.5 0.6) (pt 0.5 0.3)
     (pt 0.5 0.6) (pt 0.5 0.8) (pt 0.5 0.6) (pt 0.5 0.8)
     (pt 0.5 0.6) (pt 0.5 0.8) (pt 0.5 0.6) (pt 0.5 0.8)"

text \<open>
  Fingers curled, thumb tip above both joints, but the IP joint below the MCP joint
  (a bent thumb).
\<close>

definition handBentThumb :: "Landmark list" where
  "handBentThumb = mkHand (pt 0.5 0.9) (pt 0.5 0.6) (pt 0.5 0.7) (pt 0.5 0.3)
     (pt 0.5 0.6) (pt 0.5 0.8) (pt 0.5 0.6) (pt 0.5 0.8)
     (pt 0.5 0.6) (pt 0.5 0.8) (pt 0.5 0.6) (pt 0.5 0.8)"

text \<open>Fingers curled, thumb folded: a fist.\<close>

definition handFist :: "Landmark list" where
  "handFist = mkHand (pt 0.5 0.9) (pt 0.5 0.8) (pt 0.5 0.7) (pt 0.5 0.75)
     (pt 0.5 0.6) (pt 0.5 0.8) (pt 0.5 0.6) (pt 0.5 0.8)
     (pt 0.5 0.6) (pt 0.5 0.8) (pt 0.5 0.6) (pt 0.5 0.8)"

text \<open>Thumb and index extended, the other fingers curled.\<close>

definition handLShape :: "Landmark list" where
  "handLShape = mkHand (pt 0.5 0.9) (pt 0.5 0.8) (pt 0.5 0.7) (pt 0.5 0.5)
     (pt 0.2 0.9) (pt 0.1 0.9) (pt 0.5 0.6) (pt 0.5 0.8)
     (pt 0.5 0.6) (pt 0.5 0.8) (pt 0.5 0.6) (pt 0.5 0.8)"

text \<open>Index curled, middle extended, thumb folded: no rule matches.\<close>

definition handNone :: "Landmark list" where
  "handNone = mkHand (pt 0.5 0.9) (pt 0.5 0.8) (pt 0.5 0.7) (pt 0.5 0.75)
     (pt 0.5 0.6) (pt 0.5 0.8) (pt 0.5 0.6) (pt 0.5 0.2)
     (pt 0.5 0.6) (pt 0.5 0.8) (pt 0.5 0.6) (pt 0.5 0.8)"

text \<open>Middle, ring and little finger extended, thumb tip on the index tip, index curled.\<close>

definition handPinch :: "Landmark list" where
  "handPinch = mkHand (pt 0.5 0.9) (pt 0.5 0.8) (pt 0.5 0.75) (pt 0.5 0.7)
     (pt 0.5 0.6) (pt 0.5 0.7) (pt 0.5 0.7) (pt 0.5 0.4)
     (pt 0.5 0.7) (pt 0.5 0.4) (pt 0.5 0.7) (pt 0.5 0.4)"

text \<open>All four fingers extended, thumb apart from the index.\<close>

definition handOpenPalm :: "Landmark list" where
  "handOpenPalm = mkHand (pt 0.5 0.9) (pt 0.5 0.8) (pt 0.5 0.7) (pt 0.5 0.6)
     (pt 0.5 0.7) (pt 0.5 0.4) (pt 0.5 0.7) (pt 0.5 0.4)
     (pt 0.5 0.7) (pt 0.5 0.4) (pt 0.5 0.7) (pt 0.5 0.4)"

section \<open>Notions used in the statements\<close>

text \<open>A draw of \<^verbatim>\<open>Math.random()\<close>.\<close>

definition unit :: "real \<Rightarrow> bool" where
  "unit r = (0 \<le> r \<and> r < 1)"

text \<open>
  The square pyramid around the cone: the height is within the tree and each
  horizontal coordinate, taken alone, is within the cone's radius at that height.
\<close>

definition insidePyramid :: "Vector3 \<Rightarrow> bool" where
  "insidePyramid v =
     (- (TREE_HEIGHT / 2) \<le> vy v \<and> vy v \<le> TREE_HEIGHT / 2
      \<and> \<bar>vx v\<bar> \<le> coneRadius (vy v) \<and> \<bar>vz v\<bar> \<le> coneRadius (vy v))"

text \<open>The \<^verbatim>\<open>radius\<close> of \<^verbatim>\<open>takePhoto\<close>, as a function of its two draws.\<close>

definition photoRadius :: "real \<Rightarrow> real \<Rightarrow> real" where
  "photoRadius r1 r2 = coneRadius (((r1 * 0.9) - 0.45) * TREE_HEIGHT) * (0.4 + r2 * 0.7) + 1"

text \<open>
  The invariant of scene construction: \<^verbatim>\<open>vaveIndex\<close> counts the particles pushed, the
  particle pushed \<open>k\<close>-th holds text point \<open>k\<close>, and none is a photo. A construction
  step keeps it and pushes one particle, as long as text points are left.
\<close>

definition allocated :: "Vector3 list \<Rightarrow> Build \<Rightarrow> bool" where
  "allocated pts b =
     (vaveIndex b = length (built b)
      \<and> map textPos (built b) = take (length (built b)) pts
      \<and> list_all (\<lambda>p. \<not> isPhoto p) (built b))"

definition allocStep :: "Vector3 list \<Rightarrow> (Build \<Rightarrow> Build) \<Rightarrow> bool" where
  "allocStep pts f =
     (\<forall>b. allocated pts b \<and> length (built b) < length pts
        \<longrightarrow> allocated pts (f b) \<and> length (built (f b)) = length (built b) + 1)"

text \<open>What \<^verbatim>\<open>takePhoto\<close> needs in order not to return at once.\<close>

definition hasResources :: "App \<Rightarrow> bool" where
  "hasResources st = (mainGroup st \<and> camera st \<and> video st \<noteq> None)"

text \<open>
  The states of a capture whose photo is taken at \<open>t0\<close> in state \<open>st\<close>: after the
  150 ms callback, after the 4500 ms callback, after the final 1000 ms callback.
\<close>

definition developing :: "int \<Rightarrow> App \<Rightarrow> App" where
  "developing t0 st =
     fire (t0 + 150) EndFlash
       ((takePhoto t0 st)\<lparr>timers := [(t0 + 4500, FlySequence (length (particles st)))]\<rparr>)"

definition flying :: "int \<Rightarrow> App \<Rightarrow> App" where
  "flying t0 st =
     fire (t0 + 4500) (FlySequence (length (particles st))) ((developing t0 st)\<lparr>timers := []\<rparr>)"

definition settled :: "int \<Rightarrow> App \<Rightarrow> App" where
  "settled t0 st = fire (t0 + 5500) BackToIdle ((flying t0 st)\<lparr>timers := []\<rparr>)"

text \<open>The start state after one L-shape frame, and after one pinch frame.\<close>

definition frameL :: App where
  "frameL = predictLoop 10000 (Hand handLShape) app0"

definition framePinch :: App where
  "framePinch = predictLoop 10000 (Hand handPinch) app0"

text \<open>
  The capture states of a countdown: \<open>counting now c\<close> shows \<open>c\<close> with the next
  tick set at \<open>now\<close>; \<open>posing\<close> is the moment the countdown reaches zero, just
  before the photo.
\<close>

definition counting :: "int \<Rightarrow> int \<Rightarrow> App \<Rightarrow> App" where
  "counting now c st =
     st\<lparr>captureState := COUNTDOWN, countdown := Some c, camMessage := ''SMILE!'',
        timers := [(now + 1000, CountdownTick)]\<rparr>"

definition posing :: "App \<Rightarrow> App" where
  "posing st = st\<lparr>captureState := COUNTDOWN, countdown := Some 0, camMessage := ''SMILE!'', timers := []\<rparr>"

text \<open>A trigger is accepted: idle, the cooldown over, no timer pending.\<close>

definition canTrigger :: "int \<Rightarrow> App \<Rightarrow> bool" where
  "canTrigger now st = (captureState st = IDLE \<and> \<not> now - lastCaptureTime st < 4000 \<and> timers st = [])"

text \<open>
  The part of the state a capture runs on: the capture state, the countdown, the
  pending timers, the cooldown stamp, the flash, the snapshot, the preview and the
  particles.
\<close>

definition captureView ::
  "App \<Rightarrow> CaptureState \<times> int option \<times> (int \<times> TimerAction) list \<times> int \<times> bool \<times> bool
         \<times> nat option \<times> Particle list" where
  "captureView st =
     (captureState st, countdown st, timers st, lastCaptureTime st, flash st,
      snapshotImage st, previewingPhoto st, particles st)"

text \<open>
  The L-shape hold crosses its threshold in this frame: the frame is processed, the
  hand is an L-shape and the counter stands at 30 or more.
\<close>

definition holdCrosses :: "int \<Rightarrow> Landmark list \<Rightarrow> App \<Rightarrow> bool" where
  "holdCrosses now l st =
     (gateOpen now st \<and> 21 \<le> length l \<and> classifyGesture l = L_SHAPE \<and> 30 \<le> lShapeHoldTime st)"

text \<open>
  A concrete session: a click at 10 s takes a photo at 13 s, which is released at 17.5 s;
  then the thumb and index are pinched for 16 frames from 20 s on.
\<close>

definition shotApp :: App where
  "shotApp = exec [(10000, Click), (18500, Frame NoHand)] app0"

definition pinchFrames :: "nat \<Rightarrow> (int \<times> Event) list" where
  "pinchFrames n = map (\<lambda>k. (20000 + 16 * int k, Frame (Hand handPinch))) [0..<n]"

definition zoomedApp :: App where
  "zoomedApp = exec (pinchFrames 16) shotApp"

text \<open>The state during that pinch hold, after \<open>k\<close> frames.\<close>

definition holding :: "nat \<Rightarrow> App \<Rightarrow> bool" where
  "holding k s =
     (timers s = [] \<and> captureState s = IDLE \<and> lastCaptureTime s = 17500 \<and> isMounted s
      \<and> video s = Some 4 \<and> landmarker s \<and> zoomedPhoto s = None \<and> pinchHoldTime s = k
      \<and> particles s = particles shotApp \<and> rand s 0 = 1 / 2)"

text \<open>A bitmap with one opaque block.\<close>

definition blockAlpha :: "nat \<Rightarrow> nat \<Rightarrow> nat" where
  "blockAlpha x y = (if 100 \<le> x \<and> x < 200 \<and> 40 \<le> y \<and> y < 80 then 255 else 0)"

text \<open>
  The invariant of scene construction for tree targets: the draws left are draws, the
  topper has been pushed, and every particle after it has its tree target in the
  pyramid.
\<close>

definition treeBuilt :: "Build \<Rightarrow> bool" where
  "treeBuilt b =
     (unitDraws (draws b) \<and> built b \<noteq> []
      \<and> list_all (\<lambda>p. insidePyramid (treePos p)) (tl (built b)))"


text \<open>
  The concrete session again: after the capture, an L-shape held for 30 frames from
  19.5 s on, inside the cooldown; \<open>holdingL\<close> is the state during that hold.
\<close>

definition lFrames :: "nat \<Rightarrow> (int \<times> Event) list" where
  "lFrames n = map (\<lambda>k. (19500 + 16 * int k, Frame (Hand handLShape))) [0..<n]"

definition heldApp :: App where
  "heldApp = exec (lFrames 30) shotApp"

definition holdingL :: "nat \<Rightarrow> App \<Rightarrow> bool" where
  "holdingL k s =
     (timers s = [] \<and> captureState s = IDLE \<and> lastCaptureTime s = 17500 \<and> isMounted s
      \<and> video s = Some 4 \<and> landmarker s \<and> lShapeHoldTime s = k)"

section \<open>Properties of the classifier\<close>

lemma hypot_0_left: "hypot 0 b = \<bar>b\<bar>"
  by (simp add: hypot_def)

lemma hypot_0_right: "hypot a 0 = \<bar>a\<bar>"
  by (simp add: hypot_def)

lemmas feature_defs = isEx_def iE_def mE_def rE_def pE_def tE_def tE_Legacy_def
  pinchDist_def thumbPointingUp_def fingersCurled_def

lemmas hand_eval = feature_defs mkHand_def pt_def hypot_0_left hypot_0_right Let_def

lemma classify_handPinchPalm: "classifyGesture handPinchPalm = PINCH"
  by (simp add: classifyGesture_def handPinchPalm_def hand_eval)

lemma classify_handThumbsUp: "classifyGesture handThumbsUp = THUMBS_UP"
  by (simp add: classifyGesture_def handThumbsUp_def hand_eval)

lemma classify_handBentThumb: "classifyGesture handBentThumb = FIST"
  by (simp add: classifyGesture_def handBentThumb_def hand_eval)

lemma classify_handFist: "classifyGesture handFist = FIST"
  by (simp add: classifyGesture_def handFist_def hand_eval)

lemma classify_handLShape: "classifyGesture handLShape = L_SHAPE"
  by (simp add: classifyGesture_def handLShape_def hand_eval)

lemma classify_handNone: "classifyGesture handNone = NONE"
  by (simp add: classifyGesture_def handNone_def hand_eval)

lemma classify_handPinch: "classifyGesture handPinch = PINCH"
  by (simp add: classifyGesture_def handPinch_def hand_eval)

lemma classify_handOpenPalm: "classifyGesture handOpenPalm = OPEN_PALM"
  by (simp add: classifyGesture_def handOpenPalm_def hand_eval)

lemma length_hands:
  "length handPinchPalm = 21" "length handThumbsUp = 21" "length handBentThumb = 21"
  "length handFist = 21" "length handLShape = 21" "length handNone = 21"
  "length handPinch = 21" "length handOpenPalm = 21"
  by (simp_all add: handPinchPalm_def handThumbsUp_def handBentThumb_def handFist_def
      handLShape_def handNone_def handPinch_def handOpenPalm_def mkHand_def)

lemmas classify_hands = classify_handPinchPalm classify_handThumbsUp classify_handBentThumb
  classify_handFist classify_handLShape classify_handNone classify_handPinch
  classify_handOpenPalm

lemma classify_first_match: "classifyGesture l = firstMatch priorityOrder l"
  by (auto simp: classifyGesture_def priorityOrder_def fingersCurled_def)

text \<open>The PINCH and FIST conditions exclude each other (PINCH needs the middle finger
  extended, FIST needs it curled), so that pair of the priority list never competes.\<close>

lemma pinch_fist_exclusive: "\<not> (ruleCond PINCH l \<and> ruleCond FIST l)"
  by simp

lemma ruleCond_handBentThumb:
  "ruleCond THUMBS_UP handBentThumb" "ruleCond FIST handBentThumb"
  "\<not> branchCond THUMBS_UP handBentThumb"
  by (simp_all add: handBentThumb_def hand_eval)

text \<open>
  C4 as stated fails: a hand with all four fingers curled and the thumb extended with
  its tip above both joints, but the IP joint below the MCP joint, satisfies the
  conditions of THUMBS_UP and of FIST as the specification words them; THUMBS_UP comes
  earlier in the order, and the classifier returns FIST.
\<close>

theorem C4_counterexample:
  "ruleCond THUMBS_UP handBentThumb \<and> ruleCond FIST handBentThumb
   \<and> rank THUMBS_UP < rank FIST
   \<and> classifyGesture handBentThumb = FIST
   \<and> classifyGesture handBentThumb \<noteq> THUMBS_UP"
  using ruleCond_handBentThumb(1,2) classify_handBentThumb by simp

text \<open>
  C4, amended. The classifier is the first-match evaluation of its branches in the
  order PINCH, THUMBS_UP, FIST, OPEN_PALM, L_SHAPE, else NONE, where the THUMBS_UP
  branch asks for the thumb's vertical coordinates in the order tip < IP joint < MCP
  joint: whenever the branch conditions of two classes hold for the same landmarks,
  the class that comes earlier in the order is the one returned. The branch conditions
  are those of the specification except for THUMBS_UP, which in addition asks for the
  IP joint above the MCP joint; with the conditions as the specification words them
  the earlier class is returned for every pair other than THUMBS_UP before FIST, and
  there FIST is returned exactly when the IP joint is not above the MCP joint. The
  conditions of PINCH and FIST never hold together.
\<close>

theorem C4_priority_order:
  "classifyGesture l = firstMatch [PINCH, THUMBS_UP, FIST, OPEN_PALM, L_SHAPE] l
   \<and> (\<forall>g1 g2. branchCond g1 l \<and> branchCond g2 l \<and> rank g1 < rank g2
        \<longrightarrow> classifyGesture l = g1)
   \<and> (\<forall>g. branchCond g l
        = (if g = THUMBS_UP then ruleCond g l \<and> ly (l ! 3) < ly (l ! 2) else ruleCond g l))
   \<and> (\<forall>g1 g2. ruleCond g1 l \<and> ruleCond g2 l \<and> rank g1 < rank g2
        \<longrightarrow> classifyGesture l = (if g1 = THUMBS_UP \<and> \<not> ly (l ! 3) < ly (l ! 2) then FIST else g1))
   \<and> \<not> (ruleCond PINCH l \<and> ruleCond FIST l)"
proof (intro conjI)
  show "classifyGesture l = firstMatch [PINCH, THUMBS_UP, FIST, OPEN_PALM, L_SHAPE] l"
    by (auto simp: classifyGesture_def fingersCurled_def)
next
  show "\<forall>g1 g2. branchCond g1 l \<and> branchCond g2 l \<and> rank g1 < rank g2
          \<longrightarrow> classifyGesture l = g1"
  proof (intro allI impI)
    fix g1 g2
    assume h: "branchCond g1 l \<and> branchCond g2 l \<and> rank g1 < rank g2"
    show "classifyGesture l = g1"
      using h by (cases g1; cases g2) (auto simp: classifyGesture_def fingersCurled_def)
  qed
next
  show "\<forall>g. branchCond g l
          = (if g = THUMBS_UP then ruleCond g l \<and> ly (l ! 3) < ly (l ! 2) else ruleCond g l)"
  proof
    fix g
    show "branchCond g l
          = (if g = THUMBS_UP then ruleCond g l \<and> ly (l ! 3) < ly (l ! 2) else ruleCond g l)"
      by (cases g) (auto simp: fingersCurled_def thumbPointingUp_def Let_def)
  qed
next
  show "\<forall>g1 g2. ruleCond g1 l \<and> ruleCond g2 l \<and> rank g1 < rank g2
          \<longrightarrow> classifyGesture l = (if g1 = THUMBS_UP \<and> \<not> ly (l ! 3) < ly (l ! 2) then FIST else g1)"
  proof (intro allI impI)
    fix g1 g2
    assume h: "ruleCond g1 l \<and> ruleCond g2 l \<and> rank g1 < rank g2"
    show "classifyGesture l = (if g1 = THUMBS_UP \<and> \<not> ly (l ! 3) < ly (l ! 2) then FIST else g1)"
      using h
      by (cases g1; cases g2)
         (auto simp: classifyGesture_def fingersCurled_def thumbPointingUp_def Let_def)
  qed
next
  show "\<not> (ruleCond PINCH l \<and> ruleCond FIST l)" by simp
qed

text \<open>
  Witness for C4: a hand with all four fingers extended and the thumb tip on the index
  tip satisfies PINCH and OPEN_PALM and is PINCH; a hand with the fingers curled and the
  thumb straight up satisfies THUMBS_UP and FIST and is THUMBS_UP.
\<close>

theorem C4_priority_order_witness:
  "branchCond PINCH handPinchPalm \<and> branchCond OPEN_PALM handPinchPalm
   \<and> rank PINCH < rank OPEN_PALM \<and> classifyGesture handPinchPalm = PINCH
   \<and> branchCond THUMBS_UP handThumbsUp \<and> branchCond FIST handThumbsUp
   \<and> ruleCond THUMBS_UP handThumbsUp \<and> ruleCond FIST handThumbsUp
   \<and> rank THUMBS_UP < rank FIST \<and> classifyGesture handThumbsUp = THUMBS_UP"
proof -
  have c: "branchCond PINCH handPinchPalm \<and> branchCond OPEN_PALM handPinchPalm
           \<and> rank PINCH < rank OPEN_PALM"
    by (simp add: handPinchPalm_def hand_eval)
  have d: "branchCond THUMBS_UP handThumbsUp \<and> branchCond FIST handThumbsUp
           \<and> ruleCond THUMBS_UP handThumbsUp \<and> ruleCond FIST handThumbsUp
           \<and> rank THUMBS_UP < rank FIST"
    by (simp add: handThumbsUp_def hand_eval)
  from C4_priority_order [of handPinchPalm] c
  have p: "classifyGesture handPinchPalm = PINCH" by blast
  from C4_priority_order [of handThumbsUp] d
  have t: "classifyGesture handThumbsUp = THUMBS_UP" by blast
  from c d p t show ?thesis by simp
qed

text \<open>
  C5 as stated fails: with the thumb tip above both joints but the IP joint below the
  MCP joint, the stated condition holds and the classifier answers FIST.
\<close>

theorem C5_counterexample:
  "thumbsUpSpec handBentThumb \<and> classifyGesture handBentThumb \<noteq> THUMBS_UP"
  by (simp add: classify_handBentThumb)
     (simp add: thumbsUpSpec_def handBentThumb_def hand_eval)

text \<open>
  C5, amended. The classifier returns THUMBS_UP exactly when the thumb is extended
  under the 1.2 rule (tip against the IP joint), all four fingers are curled, and the
  thumb's vertical coordinates are strictly ordered tip < IP joint < MCP joint. PINCH
  cannot match first then, because it needs the middle finger extended.
\<close>

theorem C5_thumbs_up_iff:
  "classifyGesture l = THUMBS_UP
   \<longleftrightarrow> (tE l \<and> fingersCurled l \<and> ly (l ! 4) < ly (l ! 3) \<and> ly (l ! 3) < ly (l ! 2))"
  by (auto simp: classifyGesture_def fingersCurled_def thumbPointingUp_def Let_def)

text \<open>Witness for C5: the hand with the thumb straight up.\<close>

theorem C5_thumbs_up_iff_witness:
  "classifyGesture handThumbsUp = THUMBS_UP
   \<and> tE handThumbsUp \<and> fingersCurled handThumbsUp
   \<and> ly (handThumbsUp ! 4) < ly (handThumbsUp ! 3)
   \<and> ly (handThumbsUp ! 3) < ly (handThumbsUp ! 2)"
  using C5_thumbs_up_iff [of handThumbsUp] by (simp add: classify_handThumbsUp)

section \<open>Properties of the formation targets\<close>

lemma powr_unit: "unit r \<Longrightarrow> 0 < e \<Longrightarrow> 0 \<le> r powr e \<and> r powr e \<le> 1"
  by (simp add: unit_def powr_le1)

lemma abs_triple_le:
  fixes c m k :: real
  assumes "\<bar>c\<bar> \<le> 1" "0 \<le> m" "0 \<le> k" "k \<le> 1"
  shows "\<bar>c * m * k\<bar> \<le> m"
proof -
  have "\<bar>c * m * k\<bar> = \<bar>c\<bar> * (m * k)" using assms by (simp add: abs_mult)
  also have "\<dots> \<le> 1 * (m * k)" using assms by (intro mult_right_mono) auto
  also have "\<dots> \<le> m * 1" using assms by (simp add: mult_left_le)
  finally show ?thesis by simp
qed

lemma coneTarget_bounds:
  assumes "unit rh" "unit f1" "unit f2" "0 < e" "0 \<le> lo" "0 \<le> hi" "lo + hi \<le> 1"
  shows "- (TREE_HEIGHT / 2) \<le> vy (coneTarget e lo hi rh a1 f1 a2 f2)"
    and "vy (coneTarget e lo hi rh a1 f1 a2 f2) \<le> TREE_HEIGHT / 2"
    and "\<bar>vx (coneTarget e lo hi rh a1 f1 a2 f2)\<bar> \<le> coneRadius (vy (coneTarget e lo hi rh a1 f1 a2 f2))"
    and "\<bar>vz (coneTarget e lo hi rh a1 f1 a2 f2)\<bar> \<le> coneRadius (vy (coneTarget e lo hi rh a1 f1 a2 f2))"
proof -
  let ?hN = "rh powr e"
  let ?y = "?hN * TREE_HEIGHT - TREE_HEIGHT / 2"
  let ?mR = "TREE_BASE_RADIUS * (1 - (?y + TREE_HEIGHT / 2) / TREE_HEIGHT)"
  have hN: "0 \<le> ?hN" "?hN \<le> 1" using powr_unit [OF assms(1,4)] by simp_all
  have y: "vy (coneTarget e lo hi rh a1 f1 a2 f2) = ?y"
    by (simp add: coneTarget_def Let_def vec_def)
  have mR: "?mR = 22 * (1 - ?hN)"
    by (simp add: TREE_HEIGHT_def TREE_BASE_RADIUS_def)
  have mR0: "0 \<le> ?mR" using hN mR by simp
  have cr: "coneRadius ?y = ?mR" by (simp add: coneRadius_def)
  have k: "0 \<le> lo + hi * sqrt f \<and> lo + hi * sqrt f \<le> 1" if "unit f" for f
  proof -
    have s: "0 \<le> sqrt f" "sqrt f \<le> 1" using that by (simp_all add: unit_def)
    have "hi * sqrt f \<le> hi * 1" using s assms(6) by (intro mult_left_mono) auto
    then show ?thesis using s assms by simp
  qed
  show "- (TREE_HEIGHT / 2) \<le> vy (coneTarget e lo hi rh a1 f1 a2 f2)"
    using hN by (simp add: y TREE_HEIGHT_def)
  show "vy (coneTarget e lo hi rh a1 f1 a2 f2) \<le> TREE_HEIGHT / 2"
    using hN by (simp add: y TREE_HEIGHT_def)
  have "\<bar>cos (a1 * 6.28) * ?mR * (lo + hi * sqrt f1)\<bar> \<le> ?mR"
    using k [OF assms(2)] mR0 by (intro abs_triple_le) auto
  then show "\<bar>vx (coneTarget e lo hi rh a1 f1 a2 f2)\<bar> \<le> coneRadius (vy (coneTarget e lo hi rh a1 f1 a2 f2))"
    unfolding y cr by (simp add: coneTarget_def Let_def vec_def)
  have "\<bar>sin (a2 * 6.28) * ?mR * (lo + hi * sqrt f2)\<bar> \<le> ?mR"
    using k [OF assms(3)] mR0 by (intro abs_triple_le) auto
  then show "\<bar>vz (coneTarget e lo hi rh a1 f1 a2 f2)\<bar> \<le> coneRadius (vy (coneTarget e lo hi rh a1 f1 a2 f2))"
    unfolding y cr by (simp add: coneTarget_def Let_def vec_def)
qed

lemma photoTreePos_polar:
  "photoTreePos r1 r2 r3 =
     vec (cos (r3 * 6.28) * photoRadius r1 r2) (((r1 * 0.9) - 0.45) * TREE_HEIGHT)
         (sin (r3 * 6.28) * photoRadius r1 r2)"
  by (simp add: photoTreePos_def photoRadius_def coneRadius_def Let_def mult.commute)

lemma hypot_polar: "sqrt ((cos a * r) * (cos a * r) + (sin a * r) * (sin a * r)) = \<bar>r\<bar>"
proof -
  have "(cos a * r) * (cos a * r) + (sin a * r) * (sin a * r) = r\<^sup>2 * ((cos a)\<^sup>2 + (sin a)\<^sup>2)"
    unfolding power2_eq_square by (simp only: algebra_simps)
  then show ?thesis by simp
qed

lemma photoTreePos_bounds:
  assumes "unit r1" "unit r2"
  shows "- (TREE_HEIGHT / 2) \<le> vy (photoTreePos r1 r2 r3)"
    and "vy (photoTreePos r1 r2 r3) \<le> TREE_HEIGHT / 2"
    and "sqrt (vx (photoTreePos r1 r2 r3) * vx (photoTreePos r1 r2 r3)
             + vz (photoTreePos r1 r2 r3) * vz (photoTreePos r1 r2 r3)) = photoRadius r1 r2"
    and "1 \<le> photoRadius r1 r2"
    and "photoRadius r1 r2 \<le> 1.1 * coneRadius (vy (photoTreePos r1 r2 r3)) + 1"
proof -
  let ?h = "((r1 * 0.9) - 0.45) * TREE_HEIGHT"
  have y: "vy (photoTreePos r1 r2 r3) = ?h" by (simp add: photoTreePos_polar vec_def)
  have c: "coneRadius ?h = 22 * (1 - r1 * 0.9 - 0.05)"
    by (simp add: coneRadius_def TREE_HEIGHT_def TREE_BASE_RADIUS_def field_simps)
  have c0: "0 \<le> coneRadius ?h" unfolding c using assms(1) by (simp add: unit_def)
  have f: "0 \<le> 0.4 + r2 * 0.7" "0.4 + r2 * 0.7 \<le> 1.1" using assms(2) by (simp_all add: unit_def)
  have "0 \<le> coneRadius ?h * (0.4 + r2 * 0.7)" using c0 f by simp
  then show r1: "1 \<le> photoRadius r1 r2" by (simp add: photoRadius_def)
  show "- (TREE_HEIGHT / 2) \<le> vy (photoTreePos r1 r2 r3)"
    using assms(1) by (simp add: y TREE_HEIGHT_def unit_def)
  show "vy (photoTreePos r1 r2 r3) \<le> TREE_HEIGHT / 2"
    using assms(1) by (simp add: y TREE_HEIGHT_def unit_def)
  show "sqrt (vx (photoTreePos r1 r2 r3) * vx (photoTreePos r1 r2 r3)
             + vz (photoTreePos r1 r2 r3) * vz (photoTreePos r1 r2 r3)) = photoRadius r1 r2"
    using r1 by (simp add: photoTreePos_polar vec_def hypot_polar)
  have "coneRadius ?h * (0.4 + r2 * 0.7) \<le> coneRadius ?h * 1.1"
    using c0 f by (intro mult_left_mono) auto
  then show "photoRadius r1 r2 \<le> 1.1 * coneRadius (vy (photoTreePos r1 r2 r3)) + 1"
    by (simp add: y photoRadius_def)
qed

lemma sin_one_ge_half: "1 / 2 \<le> sin (1::real)"
proof -
  have "pi / 6 \<le> 1" using pi_less_4 by simp
  moreover have "(1::real) \<le> pi / 2" using pi_ge_two by simp
  moreover have "- (pi / 2) \<le> pi / 6" using pi_ge_zero by simp
  ultimately have "sin (pi / 6) \<le> sin 1" by (intro sin_monotone_2pi_le) auto
  then show ?thesis by (simp add: sin_30)
qed

lemma sqrt_9025: "sqrt (361 / 400 :: real) = 19 / 20"
  by (rule real_sqrt_unique) (simp_all add: power2_eq_square)

lemma photo_outside: "\<not> insideCone (photoTreePos 0.99 0 0)"
proof -
  let ?v = "photoTreePos 0.99 0 0"
  have u: "unit 0.99" "unit 0" by (simp_all add: unit_def)
  have d: "sqrt (vx ?v * vx ?v + vz ?v * vz ?v) = photoRadius 0.99 0"
    by (rule photoTreePos_bounds(3) [OF u])
  have y: "vy ?v = 24.255" by (simp add: photoTreePos_polar vec_def TREE_HEIGHT_def)
  have c: "coneRadius (vy ?v) = 1.298"
    unfolding y by (simp add: coneRadius_def TREE_HEIGHT_def TREE_BASE_RADIUS_def)
  have r: "photoRadius 0.99 0 = 1.5192"
    by (simp add: photoRadius_def coneRadius_def TREE_HEIGHT_def TREE_BASE_RADIUS_def)
  show ?thesis unfolding insideCone_def d c r by simp
qed

lemma ornament_outside: "\<not> insideCone (ornamentTreePos 0 0 0.9025 (25/157) 0.9025)"
proof -
  let ?v = "ornamentTreePos 0 0 0.9025 (25/157) 0.9025"
  have x: "vx ?v = 21.12" and y: "vy ?v = - 27.5" and z: "vz ?v = sin 1 * 21.12"
    by (simp_all add: ornamentTreePos_def coneTarget_def Let_def vec_def sqrt_9025
        TREE_HEIGHT_def TREE_BASE_RADIUS_def)
  have cr: "coneRadius (vy ?v) = 22"
    unfolding y by (simp add: coneRadius_def TREE_HEIGHT_def TREE_BASE_RADIUS_def)
  have "10.56 \<le> vz ?v" unfolding z using sin_one_ge_half by simp
  then have "10.56 * 10.56 \<le> vz ?v * vz ?v" by (intro mult_mono) auto
  then have "22 * 22 < vx ?v * vx ?v + vz ?v * vz ?v" unfolding x by simp
  then have "sqrt (22 * 22) < sqrt (vx ?v * vx ?v + vz ?v * vz ?v)"
    by (rule real_sqrt_less_mono)
  then have "22 < sqrt (vx ?v * vx ?v + vz ?v * vz ?v)" by simp
  then show ?thesis unfolding insideCone_def cr by linarith
qed

lemma unitDraws_shift: "unitDraws rnd \<Longrightarrow> unitDraws (shift k rnd)"
  by (simp add: unitDraws_def shift_def)

lemma insidePyramid_coneTarget:
  assumes "unit rh" "unit f1" "unit f2" "0 < e" "0 \<le> lo" "0 \<le> hi" "lo + hi \<le> 1"
  shows "insidePyramid (coneTarget e lo hi rh a1 f1 a2 f2)"
  using coneTarget_bounds [OF assms] by (simp add: insidePyramid_def)

lemma unitDraws_unit: "unitDraws r \<Longrightarrow> unit (r n)"
  by (simp add: unitDraws_def unit_def)

lemma built_getNextTextPos: "built (snd (getNextTextPos pts b)) = built b"
  by (simp add: getNextTextPos_def)

lemma treeBuilt_addLight: "treeBuilt b \<Longrightarrow> treeBuilt (addLight pts b)"
proof -
  assume t: "treeBuilt b"
  then have u: "unitDraws (draws b)" by (simp add: treeBuilt_def)
  have "insidePyramid (lightTreePos (draws b 1) (draws b 2) (draws b 3) (draws b 4) (draws b 5))"
    unfolding lightTreePos_def by (intro insidePyramid_coneTarget unitDraws_unit u) simp_all
  then show ?thesis
    using t by (simp add: addLight_def getNextTextPos_def Let_def treeBuilt_def unitDraws_shift)
qed

lemma treeBuilt_addSmallStar: "treeBuilt b \<Longrightarrow> treeBuilt (addSmallStar pts b)"
proof -
  assume t: "treeBuilt b"
  then have u: "unitDraws (draws b)" by (simp add: treeBuilt_def)
  have "insidePyramid (smallStarTreePos (draws b 0) (draws b 1) (draws b 2) (draws b 3) (draws b 4))"
    unfolding smallStarTreePos_def by (intro insidePyramid_coneTarget unitDraws_unit u) simp_all
  then show ?thesis
    using t by (simp add: addSmallStar_def getNextTextPos_def Let_def treeBuilt_def unitDraws_shift)
qed

lemma treeBuilt_addOrnament: "treeBuilt b \<Longrightarrow> treeBuilt (addOrnament pts b)"
proof -
  assume t: "treeBuilt b"
  then have u: "unitDraws (draws b)" by (simp add: treeBuilt_def)
  have "insidePyramid (ornamentTreePos (draws b 1) (draws b 2) (draws b 3) (draws b 4) (draws b 5))"
    unfolding ornamentTreePos_def by (intro insidePyramid_coneTarget unitDraws_unit u) simp_all
  then show ?thesis
    using t by (simp add: addOrnament_def getNextTextPos_def Let_def treeBuilt_def unitDraws_shift)
qed

lemma treeBuilt_funpow:
  fixes f :: "Build \<Rightarrow> Build"
  assumes "\<And>b. treeBuilt b \<Longrightarrow> treeBuilt (f b)" and "treeBuilt b"
  shows "treeBuilt ((f ^^ n) b)"
  using assms by (induction n) simp_all

lemma hd_funpow:
  fixes f :: "Build \<Rightarrow> Build"
  assumes "\<And>b. built b \<noteq> [] \<Longrightarrow> built (f b) \<noteq> [] \<and> hd (built (f b)) = hd (built b)"
    and "built b \<noteq> []"
  shows "built ((f ^^ n) b) \<noteq> [] \<and> hd (built ((f ^^ n) b)) = hd (built b)"
proof (induction n)
  case 0
  show ?case using assms(2) by auto
next
  case (Suc n)
  show ?case using Suc assms(1) [of "(f ^^ n) b"] by auto
qed

lemma buildParticles_tree:
  assumes "unitDraws rnd"
  shows "treeBuilt (buildParticles pts rnd)"
    and "treePos (hd (built (buildParticles pts rnd))) = vec 0 (TREE_HEIGHT / 2 + 5) 0"
proof -
  let ?b1 = "addTopper pts \<lparr>draws = rnd, vaveIndex = 0, built = []\<rparr>"
  let ?b2 = "(addLight pts ^^ LIGHT_PARTICLE_COUNT) ?b1"
  let ?b3 = "(addSmallStar pts ^^ SMALL_STAR_COUNT) ?b2"
  have t1: "treeBuilt ?b1"
    using assms by (simp add: treeBuilt_def addTopper_def getNextTextPos_def Let_def)
  show "treeBuilt (buildParticles pts rnd)"
    unfolding buildParticles_def
    by (intro treeBuilt_funpow treeBuilt_addOrnament treeBuilt_addSmallStar treeBuilt_addLight t1)
  have h1: "built ?b1 \<noteq> [] \<and> treePos (hd (built ?b1)) = vec 0 (TREE_HEIGHT / 2 + 5) 0"
    by (simp add: addTopper_def getNextTextPos_def Let_def)
  have h2: "built ?b2 \<noteq> [] \<and> hd (built ?b2) = hd (built ?b1)"
    using h1 by (intro hd_funpow) (simp_all add: addLight_def getNextTextPos_def Let_def)
  have h3: "built ?b3 \<noteq> [] \<and> hd (built ?b3) = hd (built ?b2)"
    using h2 by (intro hd_funpow) (simp_all add: addSmallStar_def getNextTextPos_def Let_def)
  have h4: "built ((addOrnament pts ^^ PARTICLE_COUNT) ?b3) \<noteq> []
            \<and> hd (built ((addOrnament pts ^^ PARTICLE_COUNT) ?b3)) = hd (built ?b3)"
    using h3 by (intro hd_funpow) (simp_all add: addOrnament_def getNextTextPos_def Let_def)
  show "treePos (hd (built (buildParticles pts rnd))) = vec 0 (TREE_HEIGHT / 2 + 5) 0"
    using h1 h2 h3 h4 by (simp add: buildParticles_def)
qed

lemma sceneInit_tree:
  assumes "unitDraws rnd"
  shows "list_all (\<lambda>p. insidePyramid (treePos p)) (tl (built (sceneInit ctx rnd)))"
    and "treePos (hd (built (sceneInit ctx rnd))) = vec 0 (TREE_HEIGHT / 2 + 5) 0"
  using buildParticles_tree [OF unitDraws_shift [OF assms]]
  by (simp_all add: sceneInit_def Let_def treeBuilt_def)

lemma takePhoto_treePos:
  "hasResources st \<Longrightarrow>
   treePos (last (particles (takePhoto now st))) = photoTreePos (rand st 0) (rand st 1) (rand st 2)"
  by (auto simp: takePhoto_def hasResources_def Let_def)

text \<open>
  C8 as stated fails. An ornament at the base of the tree whose x and z coordinates are
  drawn with the angles 0 and 1 rad and the fraction 0.96 lies outside the cone, and so
  does a photo near the top, whose radius is the cone's radius times 0.4 plus 1.
\<close>

theorem C8_counterexample:
  "\<not> insideCone (ornamentTreePos 0 0 0.9025 (25 / 157) 0.9025)
   \<and> \<not> insideCone (photoTreePos 0.99 0 0)"
  using ornament_outside photo_outside by simp

text \<open>
  C8, amended. Every tree target of a light, a small star or an ornament has its
  height within the tree and each of its horizontal coordinates, taken alone, within
  the cone's radius at that height. The tree target of a photo is placed by a single
  angle at a horizontal distance between 1 and 1.1 times the cone's radius at its
  height plus 1, and its height is within the tree. These are the targets of the
  particles of the constructed scene after the topper, which sits on the axis 5 above
  the apex, and of the particle \<^verbatim>\<open>takePhoto\<close> pushes.
\<close>

theorem C8_tree_targets:
  "(unit rh \<and> unit f1 \<and> unit f2 \<longrightarrow>
      insidePyramid (lightTreePos rh a1 f1 a2 f2)
      \<and> insidePyramid (smallStarTreePos rh a1 f1 a2 f2)
      \<and> insidePyramid (ornamentTreePos rh a1 f1 a2 f2))
   \<and> (unit r1 \<and> unit r2 \<longrightarrow>
      photoTreePos r1 r2 r3
        = vec (cos (r3 * 6.28) * photoRadius r1 r2) (vy (photoTreePos r1 r2 r3))
              (sin (r3 * 6.28) * photoRadius r1 r2)
      \<and> - (TREE_HEIGHT / 2) \<le> vy (photoTreePos r1 r2 r3)
      \<and> vy (photoTreePos r1 r2 r3) \<le> TREE_HEIGHT / 2
      \<and> sqrt (vx (photoTreePos r1 r2 r3) * vx (photoTreePos r1 r2 r3)
             + vz (photoTreePos r1 r2 r3) * vz (photoTreePos r1 r2 r3)) = photoRadius r1 r2
      \<and> 1 \<le> photoRadius r1 r2
      \<and> photoRadius r1 r2 \<le> 1.1 * coneRadius (vy (photoTreePos r1 r2 r3)) + 1)
   \<and> (unitDraws rnd \<longrightarrow>
      treePos (hd (built (sceneInit ctx rnd))) = vec 0 (TREE_HEIGHT / 2 + 5) 0
      \<and> list_all (\<lambda>p. insidePyramid (treePos p)) (tl (built (sceneInit ctx rnd))))
   \<and> (hasResources st \<longrightarrow>
      treePos (last (particles (takePhoto now st)))
        = photoTreePos (rand st 0) (rand st 1) (rand st 2))"
proof (intro conjI impI)
  assume u: "unit rh \<and> unit f1 \<and> unit f2"
  show "insidePyramid (lightTreePos rh a1 f1 a2 f2)"
    unfolding lightTreePos_def using u by (intro insidePyramid_coneTarget) simp_all
  show "insidePyramid (smallStarTreePos rh a1 f1 a2 f2)"
    unfolding smallStarTreePos_def using u by (intro insidePyramid_coneTarget) simp_all
  show "insidePyramid (ornamentTreePos rh a1 f1 a2 f2)"
    unfolding ornamentTreePos_def using u by (intro insidePyramid_coneTarget) simp_all
next
  assume u: "unit r1 \<and> unit r2"
  then have u1: "unit r1" and u2: "unit r2" by simp_all
  note b = photoTreePos_bounds [OF u1 u2]
  show "photoTreePos r1 r2 r3
        = vec (cos (r3 * 6.28) * photoRadius r1 r2) (vy (photoTreePos r1 r2 r3))
              (sin (r3 * 6.28) * photoRadius r1 r2)"
    by (simp add: photoTreePos_polar vec_def)
  show "- (TREE_HEIGHT / 2) \<le> vy (photoTreePos r1 r2 r3)" by (rule b(1))
  show "vy (photoTreePos r1 r2 r3) \<le> TREE_HEIGHT / 2" by (rule b(2))
  show "sqrt (vx (photoTreePos r1 r2 r3) * vx (photoTreePos r1 r2 r3)
             + vz (photoTreePos r1 r2 r3) * vz (photoTreePos r1 r2 r3)) = photoRadius r1 r2"
    by (rule b(3))
  show "1 \<le> photoRadius r1 r2" by (rule b(4))
  show "photoRadius r1 r2 \<le> 1.1 * coneRadius (vy (photoTreePos r1 r2 r3)) + 1" by (rule b(5))
next
  assume "unitDraws rnd"
  then show "treePos (hd (built (sceneInit ctx rnd))) = vec 0 (TREE_HEIGHT / 2 + 5) 0"
    and "list_all (\<lambda>p. insidePyramid (treePos p)) (tl (built (sceneInit ctx rnd)))"
    by (simp_all add: sceneInit_tree)
next
  assume "hasResources st"
  then show "treePos (last (particles (takePhoto now st)))
        = photoTreePos (rand st 0) (rand st 1) (rand st 2)"
    by (rule takePhoto_treePos)
qed

text \<open>
  Witness for C8: the two targets of the counterexample, the constructed scene with
  every draw one half, and a photo taken in the start state.
\<close>

theorem C8_tree_targets_witness:
  "unit 0 \<and> unit (361 / 400) \<and> unit (99 / 100)
   \<and> insidePyramid (ornamentTreePos 0 0 (361 / 400) (25 / 157) (361 / 400))
   \<and> insidePyramid (lightTreePos 0 0 (361 / 400) (25 / 157) (361 / 400))
   \<and> insidePyramid (smallStarTreePos 0 0 (361 / 400) (25 / 157) (361 / 400))
   \<and> 1 \<le> photoRadius (99 / 100) 0
   \<and> photoRadius (99 / 100) 0 \<le> 1.1 * coneRadius (vy (photoTreePos (99 / 100) 0 0)) + 1
   \<and> unitDraws (\<lambda>n. 1 / 2)
   \<and> list_all (\<lambda>p. insidePyramid (treePos p)) (tl (built (sceneInit None (\<lambda>n. 1 / 2))))
   \<and> hasResources app0
   \<and> treePos (last (particles (takePhoto 13000 app0)))
       = photoTreePos (rand app0 0) (rand app0 1) (rand app0 2)"
proof -
  have u: "unit 0" "unit (361 / 400)" "unit (99 / 100)" by (simp_all add: unit_def)
  have d: "unitDraws (\<lambda>n. 1 / 2)" by (simp add: unitDraws_def)
  have r: "hasResources app0" by (simp add: hasResources_def app0_def readyApp_def)
  show ?thesis
    using C8_tree_targets [of 0 "361 / 400" "361 / 400" 0 "25 / 157" "99 / 100" 0 0
        "\<lambda>n. 1 / 2" None app0 13000] u d r
    by simp
qed

section \<open>Properties of scene construction\<close>

lemma totalParticles_eq: "totalParticles = 1351"
  by (simp add: totalParticles_def PARTICLE_COUNT_def LIGHT_PARTICLE_COUNT_def SMALL_STAR_COUNT_def)

lemma length_getVavePoints: "length (getVavePoints n ctx rnd) = n"
  by (simp add: getVavePoints_def Let_def split: option.splits)

lemma length_shuffleFrom: "length (shuffleFrom k rnd xs) = length xs"
  by (induction k arbitrary: rnd xs) (simp_all add: Let_def)

lemma length_shuffle: "length (shuffle rnd xs) = length xs"
  by (simp add: shuffle_def length_shuffleFrom)

lemma length_sceneVavePoints: "length (sceneVavePoints ctx rnd) = 1351"
  by (simp add: sceneVavePoints_def length_shuffle length_getVavePoints totalParticles_eq)

lemma draw_index: "0 \<le> r \<Longrightarrow> r < 1 \<Longrightarrow> 0 < n \<Longrightarrow> nat \<lfloor>r * real n\<rfloor> < n"
proof -
  assume r: "0 \<le> r" "r < 1" and n: "0 < n"
  have "r * real n < real n" using r n by simp
  then have "\<lfloor>r * real n\<rfloor> < int n" by (simp add: floor_less_iff)
  moreover have "0 \<le> \<lfloor>r * real n\<rfloor>" using r by simp
  ultimately show ?thesis by (simp add: nat_less_iff)
qed

lemma set_shuffleFrom:
  "unitDraws rnd \<Longrightarrow> k < length xs \<Longrightarrow> set (shuffleFrom k rnd xs) = set xs"
proof (induction k arbitrary: rnd xs)
  case 0
  then show ?case by simp
next
  case (Suc k)
  let ?j = "nat \<lfloor>rnd 0 * real (Suc k + 1)\<rfloor>"
  have "?j < Suc k + 1"
    using Suc.prems(1) by (intro draw_index) (simp_all add: unitDraws_def)
  then have j: "?j < length xs" using Suc.prems(2) by simp
  have s: "set (xs[Suc k := xs ! ?j, ?j := xs ! Suc k]) = set xs"
  proof (cases "?j = Suc k")
    case True
    then show ?thesis by simp
  next
    case False
    have "xs[Suc k := xs ! ?j, ?j := xs ! Suc k] = xs[?j := xs ! Suc k, Suc k := xs ! ?j]"
      using False by (simp add: list_update_swap)
    then show ?thesis using set_swap [OF j Suc.prems(2)] by simp
  qed
  have "set (shuffleFrom k (shift 1 rnd) (xs[Suc k := xs ! ?j, ?j := xs ! Suc k]))
        = set (xs[Suc k := xs ! ?j, ?j := xs ! Suc k])"
    using Suc.prems by (intro Suc.IH unitDraws_shift) simp_all
  then show ?case using s by (simp add: Let_def)
qed

lemma set_shuffle: "unitDraws rnd \<Longrightarrow> set (shuffle rnd xs) = set xs"
proof (cases xs)
  case Nil
  then show ?thesis by (simp add: shuffle_def)
next
  case (Cons a as)
  assume "unitDraws rnd"
  then show ?thesis using Cons by (simp add: shuffle_def set_shuffleFrom)
qed

lemma glyphDerived_glyphPoint:
  "0 \<le> r1 \<Longrightarrow> r1 < 1 \<Longrightarrow> validPixels \<noteq> [] \<Longrightarrow> glyphDerived validPixels (glyphPoint validPixels r1 r2)"
proof -
  assume r: "0 \<le> r1" "r1 < 1" and v: "validPixels \<noteq> []"
  let ?k = "nat \<lfloor>r1 * real (length validPixels)\<rfloor>"
  have "?k < length validPixels" using r v by (intro draw_index) simp_all
  then have "validPixels ! ?k \<in> set validPixels" by simp
  then show ?thesis
    by (auto simp: glyphDerived_def glyphPoint_def Let_def vec_def list_ex_iff)
qed

lemma glyphDerived_getVavePoints:
  assumes "unitDraws rnd" "scanPixels alpha \<noteq> []" "v \<in> set (getVavePoints n (Some alpha) rnd)"
  shows "glyphDerived (scanPixels alpha) v"
proof -
  from assms(2,3) obtain i where "v = glyphPoint (scanPixels alpha) (rnd (2 * i)) (rnd (2 * i + 1))"
    by (auto simp: getVavePoints_def Let_def)
  then show ?thesis
    using assms(1,2) by (simp add: glyphDerived_glyphPoint unitDraws_def)
qed

lemma glyphDerived_sceneVavePoints:
  assumes "unitDraws rnd" "scanPixels alpha \<noteq> []" "v \<in> set (sceneVavePoints (Some alpha) rnd)"
  shows "glyphDerived (scanPixels alpha) v"
proof -
  have "set (sceneVavePoints (Some alpha) rnd) = set (getVavePoints totalParticles (Some alpha) rnd)"
    unfolding sceneVavePoints_def by (intro set_shuffle unitDraws_shift assms(1))
  then show ?thesis using assms glyphDerived_getVavePoints by blast
qed

lemma allocated_snoc:
  assumes "allocated pts b" "length (built b) < length pts" "\<not> isPhoto p"
    "textPos p = pts ! vaveIndex b"
  shows "allocated pts (b\<lparr>vaveIndex := vaveIndex b + 1, draws := r, built := built b @ [p]\<rparr>)"
  using assms by (simp add: allocated_def take_Suc_conv_app_nth)

lemma allocStep_addTopper: "allocStep pts (addTopper pts)"
  unfolding allocStep_def
proof (intro allI impI)
  fix b assume a: "allocated pts b \<and> length (built b) < length pts"
  then have i: "vaveIndex b < length pts" by (simp add: allocated_def)
  show "allocated pts (addTopper pts b) \<and> length (built (addTopper pts b)) = length (built b) + 1"
    using a i allocated_snoc [of pts b _ "draws b"]
    by (simp add: addTopper_def getNextTextPos_def Let_def)
qed

lemma allocStep_addLight: "allocStep pts (addLight pts)"
  unfolding allocStep_def
proof (intro allI impI)
  fix b assume a: "allocated pts b \<and> length (built b) < length pts"
  then have i: "vaveIndex b < length pts" by (simp add: allocated_def)
  show "allocated pts (addLight pts b) \<and> length (built (addLight pts b)) = length (built b) + 1"
    using a i allocated_snoc [of pts b _ "shift 11 (draws b)"]
    by (simp add: addLight_def getNextTextPos_def Let_def)
qed

lemma allocStep_addSmallStar: "allocStep pts (addSmallStar pts)"
  unfolding allocStep_def
proof (intro allI impI)
  fix b assume a: "allocated pts b \<and> length (built b) < length pts"
  then have i: "vaveIndex b < length pts" by (simp add: allocated_def)
  show "allocated pts (addSmallStar pts b) \<and> length (built (addSmallStar pts b)) = length (built b) + 1"
    using a i allocated_snoc [of pts b _ "shift 14 (draws b)"]
    by (simp add: addSmallStar_def getNextTextPos_def Let_def)
qed

lemma allocStep_addOrnament: "allocStep pts (addOrnament pts)"
  unfolding allocStep_def
proof (intro allI impI)
  fix b assume a: "allocated pts b \<and> length (built b) < length pts"
  then have i: "vaveIndex b < length pts" by (simp add: allocated_def)
  show "allocated pts (addOrnament pts b) \<and> length (built (addOrnament pts b)) = length (built b) + 1"
    using a i allocated_snoc [of pts b _ "shift 12 (draws b)"]
    by (simp add: addOrnament_def getNextTextPos_def Let_def)
qed

lemma allocStep_funpow:
  assumes "allocStep pts f"
  shows "allocated pts b \<Longrightarrow> length (built b) + n \<le> length pts \<Longrightarrow>
         allocated pts ((f ^^ n) b) \<and> length (built ((f ^^ n) b)) = length (built b) + n"
proof (induction n)
  case 0
  then show ?case by simp
next
  case (Suc n)
  have ih: "allocated pts ((f ^^ n) b)" "length (built ((f ^^ n) b)) = length (built b) + n"
    using Suc by simp_all
  have "length (built ((f ^^ n) b)) < length pts" using ih Suc.prems by simp
  then have "allocated pts (f ((f ^^ n) b)) \<and> length (built (f ((f ^^ n) b))) = length (built ((f ^^ n) b)) + 1"
    using assms ih(1) unfolding allocStep_def by blast
  then show ?case using ih by simp
qed

lemma buildParticles_allocated:
  assumes "length pts = 1351"
  shows "allocated pts (buildParticles pts rnd) \<and> length (built (buildParticles pts rnd)) = 1351"
proof -
  let ?b0 = "\<lparr>draws = rnd, vaveIndex = 0, built = []\<rparr>"
  let ?b1 = "addTopper pts ?b0"
  let ?b2 = "(addLight pts ^^ LIGHT_PARTICLE_COUNT) ?b1"
  let ?b3 = "(addSmallStar pts ^^ SMALL_STAR_COUNT) ?b2"
  let ?b4 = "(addOrnament pts ^^ PARTICLE_COUNT) ?b3"
  have a0: "allocated pts ?b0" by (simp add: allocated_def)
  have a1: "allocated pts ?b1 \<and> length (built ?b1) = 1"
    using allocStep_addTopper [of pts] a0 assms unfolding allocStep_def by fastforce
  have a2: "allocated pts ?b2 \<and> length (built ?b2) = 601"
    using allocStep_funpow [OF allocStep_addLight, of pts ?b1 LIGHT_PARTICLE_COUNT] a1 assms
    by (simp add: LIGHT_PARTICLE_COUNT_def)
  have a3: "allocated pts ?b3 \<and> length (built ?b3) = 751"
    using allocStep_funpow [OF allocStep_addSmallStar, of pts ?b2 SMALL_STAR_COUNT] a2 assms
    by (simp add: SMALL_STAR_COUNT_def)
  have a4: "allocated pts ?b4 \<and> length (built ?b4) = 1351"
    using allocStep_funpow [OF allocStep_addOrnament, of pts ?b3 PARTICLE_COUNT] a3 assms
    by (simp add: PARTICLE_COUNT_def)
  then show ?thesis by (simp add: buildParticles_def)
qed

lemma sceneInit_allocated:
  "vaveIndex (sceneInit ctx rnd) = 1351
   \<and> length (built (sceneInit ctx rnd)) = 1351
   \<and> map textPos (built (sceneInit ctx rnd)) = sceneVavePoints ctx rnd
   \<and> list_all (\<lambda>p. \<not> isPhoto p) (built (sceneInit ctx rnd))"
  using buildParticles_allocated [OF length_sceneVavePoints, of ctx rnd]
  by (simp add: sceneInit_def Let_def allocated_def length_sceneVavePoints)

lemma unitDraws_half: "unitDraws (\<lambda>n. 1 / 2)"
  by (simp add: unitDraws_def)

lemma sceneVavePoints_None: "sceneVavePoints None (\<lambda>n. 1 / 2) = replicate 1351 origin"
proof (rule replicate_eqI)
  show "length (sceneVavePoints None (\<lambda>n. 1 / 2)) = 1351" by (rule length_sceneVavePoints)
next
  fix v assume "v \<in> set (sceneVavePoints None (\<lambda>n. 1 / 2))"
  moreover have "set (sceneVavePoints None (\<lambda>n. 1 / 2)) = set (getVavePoints totalParticles None (\<lambda>n. 1 / 2))"
    unfolding sceneVavePoints_def by (intro set_shuffle unitDraws_shift unitDraws_half)
  ultimately show "v = origin" by (simp add: getVavePoints_def)
qed

text \<open>The allocator advances its index exactly when it takes the list branch.\<close>

lemma getNextTextPos_index:
  "vaveIndex (snd (getNextTextPos pts b)) = vaveIndex b + 1 \<longleftrightarrow> vaveIndex b < length pts"
  by (simp add: getNextTextPos_def)

text \<open>
  C10 as stated fails: without a 2D context \<^verbatim>\<open>getVavePoints\<close> returns 1351 origin
  points, and every particle receives the origin although the allocator never takes
  its own degenerate branch.
\<close>

theorem C10_counterexample:
  "getVavePoints totalParticles None (\<lambda>n. 1 / 2) = replicate 1351 origin
   \<and> vaveIndex (sceneInit None (\<lambda>n. 1 / 2)) = 1351
   \<and> map textPos (built (sceneInit None (\<lambda>n. 1 / 2))) = replicate 1351 origin"
  using sceneInit_allocated [of None "\<lambda>n. 1 / 2"]
  by (simp add: sceneVavePoints_None getVavePoints_def totalParticles_eq)

lemma sceneVavePoints_fallback:
  assumes "unitDraws rnd" "ctx = None \<or> (\<exists>alpha. ctx = Some alpha \<and> scanPixels alpha = [])"
  shows "sceneVavePoints ctx rnd = replicate 1351 origin"
proof (rule replicate_eqI)
  show "length (sceneVavePoints ctx rnd) = 1351" by (rule length_sceneVavePoints)
next
  fix v assume "v \<in> set (sceneVavePoints ctx rnd)"
  moreover have "set (sceneVavePoints ctx rnd) = set (getVavePoints totalParticles ctx rnd)"
    unfolding sceneVavePoints_def by (intro set_shuffle unitDraws_shift assms(1))
  ultimately show "v = origin" using assms(2) by (auto simp: getVavePoints_def)
qed

text \<open>
  C10, amended. The text point list has 1351 entries, construction creates 1351
  particles and advances the index to 1351, once per particle, so the allocator never
  takes its degenerate branch (which leaves the index where it is): the particle
  created \<open>k\<close>-th receives entry \<open>k\<close> of the shuffled list. These entries are
  glyph-derived whenever the canvas gave a context and the scan found an opaque pixel;
  without a context, or when the scan finds no opaque pixel, every particle receives
  the origin.
\<close>

theorem C10_text_targets:
  "length (sceneVavePoints ctx rnd) = 1351
   \<and> length (built (sceneInit ctx rnd)) = 1351
   \<and> vaveIndex (sceneInit ctx rnd) = 1351
   \<and> map textPos (built (sceneInit ctx rnd)) = sceneVavePoints ctx rnd
   \<and> (\<forall>alpha. ctx = Some alpha \<and> scanPixels alpha \<noteq> [] \<and> unitDraws rnd \<longrightarrow>
        list_all (\<lambda>p. glyphDerived (scanPixels alpha) (textPos p)) (built (sceneInit ctx rnd)))
   \<and> ((ctx = None \<or> (\<exists>alpha. ctx = Some alpha \<and> scanPixels alpha = [])) \<and> unitDraws rnd \<longrightarrow>
        map textPos (built (sceneInit ctx rnd)) = replicate 1351 origin)"
proof -
  note s = sceneInit_allocated [of ctx rnd]
  have g: "list_all (\<lambda>p. glyphDerived (scanPixels alpha) (textPos p)) (built (sceneInit ctx rnd))"
    if "ctx = Some alpha" "scanPixels alpha \<noteq> []" "unitDraws rnd" for alpha
  proof -
    have "\<forall>v \<in> set (map textPos (built (sceneInit ctx rnd))). glyphDerived (scanPixels alpha) v"
      using s that glyphDerived_sceneVavePoints by auto
    then show ?thesis by (simp add: list_all_iff)
  qed
  have f: "map textPos (built (sceneInit ctx rnd)) = replicate 1351 origin"
    if "ctx = None \<or> (\<exists>alpha. ctx = Some alpha \<and> scanPixels alpha = [])" "unitDraws rnd"
    using s sceneVavePoints_fallback [OF that(2,1)] by simp
  from g f show ?thesis using s length_sceneVavePoints by blast
qed

lemma scanPixels_mem:
  assumes "x < 150" "y < 60" "128 < alpha (2 * x) (2 * y)"
  shows "(2 * x, 2 * y) \<in> set (scanPixels alpha)"
  using assms by (auto simp: scanPixels_def)

lemma scanPixels_blockAlpha: "scanPixels blockAlpha \<noteq> []"
proof -
  have "(2 * 50, 2 * 20) \<in> set (scanPixels blockAlpha)"
    by (rule scanPixels_mem) (simp_all add: blockAlpha_def)
  then show ?thesis by auto
qed

text \<open>
  Witness for C10: a bitmap with an opaque block, every draw one half; and no 2D
  context, every draw one half.
\<close>

theorem C10_text_targets_witness:
  "scanPixels blockAlpha \<noteq> [] \<and> unitDraws (\<lambda>n. 1 / 2)
   \<and> length (built (sceneInit (Some blockAlpha) (\<lambda>n. 1 / 2))) = 1351
   \<and> vaveIndex (sceneInit (Some blockAlpha) (\<lambda>n. 1 / 2)) = 1351
   \<and> list_all (\<lambda>p. glyphDerived (scanPixels blockAlpha) (textPos p))
        (built (sceneInit (Some blockAlpha) (\<lambda>n. 1 / 2)))
   \<and> map textPos (built (sceneInit None (\<lambda>n. 1 / 2))) = replicate 1351 origin"
proof -
  have a: "length (built (sceneInit (Some blockAlpha) (\<lambda>n. 1 / 2))) = 1351
           \<and> vaveIndex (sceneInit (Some blockAlpha) (\<lambda>n. 1 / 2)) = 1351
           \<and> list_all (\<lambda>p. glyphDerived (scanPixels blockAlpha) (textPos p))
                (built (sceneInit (Some blockAlpha) (\<lambda>n. 1 / 2)))"
    using C10_text_targets [of "Some blockAlpha" "\<lambda>n. 1 / 2"]
    by (simp add: scanPixels_blockAlpha unitDraws_half)
  have b: "map textPos (built (sceneInit None (\<lambda>n. 1 / 2))) = replicate 1351 origin"
    using C10_text_targets [of None "\<lambda>n. 1 / 2"] unitDraws_half by blast
  from a b show ?thesis by (simp add: scanPixels_blockAlpha unitDraws_half)
qed
section \<open>Properties of the state machines\<close>

lemma advance_Nil: "timers st = [] \<Longrightarrow> advance t st = st"
  by (simp add: advance.simps)

lemma app0_fields:
  "timers app0 = []" "isMounted app0" "video app0 = Some 4" "landmarker app0"
  "captureState app0 = IDLE" "lastCaptureTime app0 = 0" "lShapeHoldTime app0 = 0"
  "pinchHoldTime app0 = 0" "zoomedPhoto app0 = None" "holdBar app0 = Some 0"
  "mainGroup app0" "camera app0" "canvas2d app0" "countdown app0 = None"
  by (simp_all add: app0_def readyApp_def)

lemma gateOpen_app0: "gateOpen 10000 app0"
  by (simp add: gateOpen_def app0_fields)

lemma predictLoop_open:
  "gateOpen now st \<Longrightarrow> 21 \<le> length l \<Longrightarrow>
   predictLoop now (Hand l) st =
     handleGesture now (classifyGesture l)
       (st\<lparr>gesture := classifyGesture l, currentGesture := classifyGesture l,
            rotationSpeed := (0.5 - lx (l ! 0)) * 0.035\<rparr>)"
  by (auto simp: predictLoop_def gateOpen_def Let_def split: option.splits)

lemma predictLoop_open_NoHand:
  "gateOpen now st \<Longrightarrow>
   predictLoop now NoHand st = st\<lparr>currentGesture := NONE, holdBar := map_option (\<lambda>w. 0) (holdBar st)\<rparr>"
  by (auto simp: predictLoop_def gateOpen_def Let_def split: option.splits)

lemma predictLoop_closed:
  "\<not> gateOpen now st \<Longrightarrow> predictLoop now det st = st"
  by (auto simp: predictLoop_def gateOpen_def Let_def split: option.splits)

lemma frameL_fields:
  "lShapeHoldTime frameL = 1" "pinchHoldTime frameL = 0" "captureState frameL = IDLE"
  "timers frameL = []" "gateOpen 10016 frameL" "holdBar frameL = Some (10 / 3)"
  by (simp_all add: frameL_def predictLoop_open [OF gateOpen_app0] length_hands classify_hands
      handleGesture_def Let_def app0_fields gateOpen_def)

text \<open>
  What a processed frame classified OPEN_PALM, FIST or THUMBS_UP writes: the pinch hold
  counter, the zoomed-photo lock and the mode. The L-shape hold counter is not among
  them.
\<close>

lemma mode_frame_resets:
  "gateOpen now st \<Longrightarrow> 21 \<le> length l \<Longrightarrow> modeOf (classifyGesture l) = Some m \<Longrightarrow>
   pinchHoldTime (predictLoop now (Hand l) st) = 0
   \<and> zoomedPhoto (predictLoop now (Hand l) st) = None
   \<and> appMode (predictLoop now (Hand l) st) = m"
  by (cases "classifyGesture l") (simp_all add: predictLoop_open handleGesture_def)

lemma mode_frame_keeps:
  "gateOpen now st \<Longrightarrow> 21 \<le> length l \<Longrightarrow> modeOf (classifyGesture l) = Some m \<Longrightarrow>
   lShapeHoldTime (predictLoop now (Hand l) st) = lShapeHoldTime st
   \<and> captureState (predictLoop now (Hand l) st) = captureState st
   \<and> lastCaptureTime (predictLoop now (Hand l) st) = lastCaptureTime st
   \<and> timers (predictLoop now (Hand l) st) = timers st
   \<and> isMounted (predictLoop now (Hand l) st) = isMounted st
   \<and> video (predictLoop now (Hand l) st) = video st
   \<and> landmarker (predictLoop now (Hand l) st) = landmarker st"
  by (cases "classifyGesture l") (simp_all add: predictLoop_open handleGesture_def)

lemma predictLoop_none_resets:
  "gateOpen now st \<Longrightarrow> 21 \<le> length l \<Longrightarrow> classifyGesture l = NONE \<Longrightarrow>
   lShapeHoldTime (predictLoop now (Hand l) st) = 0
   \<and> pinchHoldTime (predictLoop now (Hand l) st) = 0
   \<and> holdBar (predictLoop now (Hand l) st) = map_option (\<lambda>w. 0) (holdBar st)"
  by (simp add: predictLoop_open handleGesture_def)

lemma predictLoop_no_hand_counters:
  "lShapeHoldTime (predictLoop now NoHand st) = lShapeHoldTime st
   \<and> pinchHoldTime (predictLoop now NoHand st) = pinchHoldTime st"
  by (cases "gateOpen now st") (simp_all add: predictLoop_open_NoHand predictLoop_closed)

lemma framePinch_fields:
  "lShapeHoldTime framePinch = 0" "pinchHoldTime framePinch = 1" "captureState framePinch = IDLE"
  "timers framePinch = []" "gateOpen 10016 framePinch"
  by (simp_all add: framePinch_def predictLoop_open [OF gateOpen_app0] length_hands classify_hands
      handleGesture_def Let_def app0_fields gateOpen_def)

text \<open>
  C2. A frame with no hand resets the hold bar to 0 and leaves both hold counters as
  they were: after one L-shape frame the L-shape counter is still 1, after one pinch
  frame the pinch counter is still 1. (A frame whose hand matches no rule resets both
  counters and the bar: \<open>predictLoop_none_resets\<close>.)
\<close>

theorem C2_no_hand_frame:
  "lShapeHoldTime (exec [(10000, Frame (Hand handLShape)), (10016, Frame NoHand)] app0) = 1
   \<and> holdBar (exec [(10000, Frame (Hand handLShape)), (10016, Frame NoHand)] app0) = Some 0
   \<and> pinchHoldTime (exec [(10000, Frame (Hand handPinch)), (10016, Frame NoHand)] app0) = 1"
  by (simp add: exec_def step_def advance_Nil app0_fields frameL_def [symmetric] frameL_fields
      framePinch_def [symmetric] framePinch_fields predictLoop_open_NoHand)



lemma zoomed_takePhoto: "zoomedPhoto (takePhoto now st) = zoomedPhoto st"
  by (simp add: takePhoto_def Let_def)

lemma zoomed_countdownEffect: "zoomedPhoto (countdownEffect now st) = zoomedPhoto st"
  by (simp add: countdownEffect_def cleanupTicks_def Let_def zoomed_takePhoto split: option.splits)

lemma zoomed_rerender: "zoomedPhoto (rerender now old new) = zoomedPhoto new"
  by (simp add: rerender_def zoomed_countdownEffect)

lemma zoomed_triggerCountdown: "zoomedPhoto (triggerCountdown seen now st) = zoomedPhoto st"
  by (simp add: triggerCountdown_def zoomed_rerender)

lemma zoomed_clickSnap: "zoomedPhoto (clickSnap now st) = zoomedPhoto st"
  by (simp add: clickSnap_def zoomed_triggerCountdown)

lemma zoomed_fire: "zoomedPhoto (fire now a st) = zoomedPhoto st"
  by (cases a) (simp_all add: zoomed_rerender)

lemma zoomed_advance: "zoomedPhoto (advance t st) = zoomedPhoto st"
proof (induction t st rule: advance.induct)
  case (1 t st)
  show ?case
  proof (cases "nextDue (timers st)")
    case None
    then show ?thesis by (simp add: advance.simps [of t st])
  next
    case (Some ta)
    obtain due a where ta: "ta = (due, a)" by (cases ta)
    show ?thesis
    proof (cases "due \<le> t")
      case True
      have "zoomedPhoto (advance t st)
            = zoomedPhoto (advance t (fire due a (st\<lparr>timers := remove1 (due, a) (timers st)\<rparr>)))"
        using Some ta True by (simp add: advance.simps [of t st])
      also have "\<dots> = zoomedPhoto (fire due a (st\<lparr>timers := remove1 (due, a) (timers st)\<rparr>))"
        by (rule "1.IH" [OF Some ta [symmetric] True])
      finally show ?thesis by (simp add: zoomed_fire)
    next
      case False
      then show ?thesis using Some ta by (simp add: advance.simps [of t st])
    qed
  qed
qed

lemma zoomed_handleGesture:
  "zoomedPhoto st = Some p \<Longrightarrow> modeOf g = None \<Longrightarrow> zoomedPhoto (handleGesture now g st) = Some p"
  by (cases g) (simp_all add: handleGesture_def Let_def zoomed_triggerCountdown)

lemma zoomed_predictLoop:
  "zoomedPhoto st = Some p \<Longrightarrow> (\<forall>l. det = Hand l \<longrightarrow> modeOf (classifyGesture l) = None) \<Longrightarrow>
   zoomedPhoto (predictLoop now det st) = Some p"
  by (cases det) (simp_all add: predictLoop_def Let_def zoomed_handleGesture)

lemma zoomed_step:
  "zoomedPhoto st = Some p \<Longrightarrow> (\<forall>l. snd te = Frame (Hand l) \<longrightarrow> modeOf (classifyGesture l) = None) \<Longrightarrow>
   zoomedPhoto (step te st) = Some p"
  by (cases "snd te")
     (simp_all add: step_def Let_def zoomed_predictLoop zoomed_clickSnap zoomed_advance)

lemma zoomed_exec:
  "zoomedPhoto st = Some p \<Longrightarrow>
   (\<forall>te \<in> set evs. \<forall>l. snd te = Frame (Hand l) \<longrightarrow> modeOf (classifyGesture l) = None) \<Longrightarrow>
   zoomedPhoto (exec evs st) = Some p"
proof (induction evs arbitrary: st)
  case Nil
  then show ?case by (simp add: exec_def)
next
  case (Cons te evs)
  have "zoomedPhoto (step te st) = Some p"
    using Cons.prems by (intro zoomed_step) auto
  then have "zoomedPhoto (exec evs (step te st)) = Some p"
    using Cons.prems by (intro Cons.IH) auto
  then show ?case by (simp add: exec_def)
qed

lemma advance_fire:
  "nextDue (timers st) = Some (due, a) \<Longrightarrow> due \<le> t \<Longrightarrow>
   advance t st = advance t (fire due a (st\<lparr>timers := remove1 (due, a) (timers st)\<rparr>))"
  by (simp add: advance.simps [of t st])

lemma advance_wait:
  "nextDue (timers st) = Some (due, a) \<Longrightarrow> t < due \<Longrightarrow> advance t st = st"
  by (simp add: advance.simps [of t st])

lemma takePhoto_fields:
  assumes "hasResources st" "timers st = []"
  shows "captureState (takePhoto t0 st) = FLASH"
    and "timers (takePhoto t0 st) = [(t0 + 150, EndFlash), (t0 + 4500, FlySequence (length (particles st)))]"
  using assms by (auto simp: takePhoto_def hasResources_def Let_def)

lemma developing_fields:
  assumes "hasResources st" "timers st = []"
  shows "captureState (developing t0 st) = DEVELOPING"
    and "timers (developing t0 st) = [(t0 + 4500, FlySequence (length (particles st)))]"
  using takePhoto_fields [OF assms, of t0]
  by (simp_all add: developing_def rerender_def countdownEffect_def cleanupTicks_def Let_def)

lemma flying_fields:
  assumes "hasResources st" "timers st = []"
  shows "captureState (flying t0 st) = FLYING"
    and "timers (flying t0 st) = [(t0 + 5500, BackToIdle)]"
    and "lastCaptureTime (flying t0 st) = t0 + 4500"
  using developing_fields [OF assms, of t0]
  by (simp_all add: flying_def rerender_def countdownEffect_def cleanupTicks_def Let_def)

lemma settled_fields:
  assumes "hasResources st" "timers st = []"
  shows "captureState (settled t0 st) = IDLE"
    and "timers (settled t0 st) = []"
    and "lastCaptureTime (settled t0 st) = t0 + 4500"
  using flying_fields [OF assms, of t0]
  by (simp_all add: settled_def rerender_def countdownEffect_def cleanupTicks_def Let_def)

lemma advance_takePhoto:
  assumes "hasResources st" "timers st = []"
  shows "advance t (takePhoto t0 st) =
           (if t < t0 + 150 then takePhoto t0 st
            else if t < t0 + 4500 then developing t0 st
            else if t < t0 + 5500 then flying t0 st
            else settled t0 st)"
proof -
  let ?n = "length (particles st)"
  note tp = takePhoto_fields [OF assms, of t0]
  note dv = developing_fields [OF assms, of t0]
  note fl = flying_fields [OF assms, of t0]
  note se = settled_fields [OF assms, of t0]
  have n0: "nextDue (timers (takePhoto t0 st)) = Some (t0 + 150, EndFlash)"
    by (simp add: tp)
  have n1: "nextDue (timers (developing t0 st)) = Some (t0 + 4500, FlySequence ?n)"
    by (simp add: dv)
  have n2: "nextDue (timers (flying t0 st)) = Some (t0 + 5500, BackToIdle)"
    by (simp add: fl)
  have a0: "advance t (takePhoto t0 st) = advance t (developing t0 st)" if "t0 + 150 \<le> t"
    using advance_fire [OF n0 that] by (simp add: tp developing_def)
  have a1: "advance t (developing t0 st) = advance t (flying t0 st)" if "t0 + 4500 \<le> t"
    using advance_fire [OF n1 that] by (simp add: dv flying_def)
  have a2: "advance t (flying t0 st) = advance t (settled t0 st)" if "t0 + 5500 \<le> t"
    using advance_fire [OF n2 that] by (simp add: fl settled_def)
  have a3: "advance t (settled t0 st) = settled t0 st"
    by (simp add: advance_Nil se)
  show ?thesis
  proof (cases "t < t0 + 150")
    case True
    then show ?thesis using advance_wait [OF n0] by simp
  next
    case c1: False
    show ?thesis
    proof (cases "t < t0 + 4500")
      case True
      then show ?thesis using c1 a0 advance_wait [OF n1] by simp
    next
      case c2: False
      show ?thesis
      proof (cases "t < t0 + 5500")
        case True
        then show ?thesis using c1 c2 a0 a1 advance_wait [OF n2] by simp
      next
        case False
        then show ?thesis using c1 c2 a0 a1 a2 a3 by simp
      qed
    qed
  qed
qed

lemma captureState_advance_takePhoto:
  assumes "hasResources st" "timers st = []"
  shows "captureState (advance t (takePhoto t0 st)) =
           (if t < t0 + 150 then FLASH
            else if t < t0 + 4500 then DEVELOPING
            else if t < t0 + 5500 then FLYING
            else IDLE)"
  by (simp add: advance_takePhoto [OF assms] takePhoto_fields [OF assms]
      developing_fields [OF assms] flying_fields [OF assms] settled_fields [OF assms])

lemma click_app0:
  "captureState (clickSnap 10000 app0) = COUNTDOWN"
  "timers (clickSnap 10000 app0) = [(11000, CountdownTick)]"
  by (simp_all add: clickSnap_def triggerCountdown_def app0_fields rerender_def
      countdownEffect_def cleanupTicks_def Let_def)

text \<open>
  C3 as stated fails: 500 ms after an accepted trigger the second attempt is rejected,
  but the capture state it leaves is COUNTDOWN, not IDLE. No attempt within 4000 ms of
  a trigger finds the state IDLE.
\<close>

theorem C3_counterexample:
  "captureState (exec [(10000, Click)] app0) = COUNTDOWN
   \<and> captureState (exec [(10000, Click), (10500, Click)] app0) \<noteq> IDLE"
proof -
  have e1: "exec [(10000, Click)] app0 = clickSnap 10000 app0"
    by (simp add: exec_def step_def advance_Nil app0_fields)
  have n: "nextDue (timers (clickSnap 10000 app0)) = Some (11000, CountdownTick)"
    by (simp add: click_app0)
  have w: "advance 10500 (clickSnap 10000 app0) = clickSnap 10000 app0"
    by (rule advance_wait [OF n]) simp
  have e2: "exec [(10000, Click), (10500, Click)] app0 = clickSnap 10500 (clickSnap 10000 app0)"
    by (simp add: exec_def step_def advance_Nil app0_fields w)
  have "clickSnap 10500 (clickSnap 10000 app0) = clickSnap 10000 app0"
    by (simp add: clickSnap_def [of 10500] triggerCountdown_def click_app0)
  then show ?thesis by (simp add: e1 e2 click_app0)
qed

lemma clickSnap_accepted:
  "canTrigger now st \<Longrightarrow> clickSnap now st = counting now 3 st"
  by (simp add: canTrigger_def clickSnap_def triggerCountdown_def rerender_def countdownEffect_def
      cleanupTicks_def counting_def Let_def)

lemma fire_tick_counting:
  assumes "1 < c"
  shows "fire (now + 1000) CountdownTick ((counting now c st)\<lparr>timers := []\<rparr>)
     = counting (now + 1000) (c - 1) st"
proof -
  let ?s = "(counting now c st)\<lparr>timers := []\<rparr>"
  have "fire (now + 1000) CountdownTick ?s
        = (cleanupTicks (?s\<lparr>countdown := Some (c - 1)\<rparr>))\<lparr>timers := [(now + 1000 + 1000, CountdownTick)]\<rparr>"
    using assms by (simp add: counting_def rerender_def countdownEffect_def cleanupTicks_def Let_def)
  also have "\<dots> = counting (now + 1000) (c - 1) st"
    by (rule App.equality) (simp_all add: counting_def cleanupTicks_def)
  finally show ?thesis .
qed

lemma fire_tick_last:
  "fire (now + 1000) CountdownTick ((counting now 1 st)\<lparr>timers := []\<rparr>)
     = takePhoto (now + 1000) (posing st)"
proof -
  let ?s = "(counting now 1 st)\<lparr>timers := []\<rparr>"
  have e: "cleanupTicks (?s\<lparr>countdown := Some 0\<rparr>) = posing st"
    by (rule App.equality) (simp_all add: counting_def posing_def cleanupTicks_def)
  have "fire (now + 1000) CountdownTick ?s
        = takePhoto (now + 1000) (cleanupTicks (?s\<lparr>countdown := Some 0\<rparr>))"
    by (simp add: counting_def rerender_def countdownEffect_def cleanupTicks_def Let_def)
  then show ?thesis by (simp only: e)
qed

lemma nextDue_counting: "nextDue (timers (counting now c st)) = Some (now + 1000, CountdownTick)"
  by (simp add: counting_def)

lemma counting_fields:
  "captureState (counting now c st) = COUNTDOWN" "countdown (counting now c st) = Some c"
  "timers (counting now c st) = [(now + 1000, CountdownTick)]"
  by (simp_all add: counting_def)

lemma posing_fields:
  "hasResources (posing st) = hasResources st" "timers (posing st) = []"
  "particles (posing st) = particles st"
  by (simp_all add: posing_def hasResources_def)

lemma posing_keeps:
  "isMounted (posing st) = isMounted st" "video (posing st) = video st"
  "landmarker (posing st) = landmarker st" "zoomedPhoto (posing st) = zoomedPhoto st"
  "pinchHoldTime (posing st) = pinchHoldTime st"
  "mainGroup (posing st) = mainGroup st" "camera (posing st) = camera st"
  by (simp_all add: posing_def)

lemma advance_counting_wait: "t < now + 1000 \<Longrightarrow> advance t (counting now c st) = counting now c st"
  by (rule advance_wait [OF nextDue_counting])

lemma advance_counting_tick:
  "1 < c \<Longrightarrow> now + 1000 \<le> t \<Longrightarrow>
   advance t (counting now c st) = advance t (counting (now + 1000) (c - 1) st)"
proof -
  assume c: "1 < c" and t: "now + 1000 \<le> t"
  have r: "remove1 (now + 1000, CountdownTick) (timers (counting now c st)) = []"
    by (simp add: counting_fields)
  show ?thesis
    using advance_fire [OF nextDue_counting t, of c st]
    by (simp only: r fire_tick_counting [OF c])
qed

lemma advance_counting_last:
  "now + 1000 \<le> t \<Longrightarrow>
   advance t (counting now 1 st) = advance t (takePhoto (now + 1000) (posing st))"
proof -
  assume t: "now + 1000 \<le> t"
  have r: "remove1 (now + 1000, CountdownTick) (timers (counting now 1 st)) = []"
    by (simp add: counting_fields)
  show ?thesis
    using advance_fire [OF nextDue_counting t, of 1 st]
    by (simp only: r fire_tick_last)
qed

lemma advance_counting:
  "advance t (counting now 3 st) =
     (if t < now + 1000 then counting now 3 st
      else if t < now + 2000 then counting (now + 1000) 2 st
      else if t < now + 3000 then counting (now + 2000) 1 st
      else advance t (takePhoto (now + 3000) (posing st)))"
proof -
  have c3: "advance t (counting now 3 st) = advance t (counting (now + 1000) 2 st)" if "now + 1000 \<le> t"
    using advance_counting_tick [of 3 now t st] that by simp
  have c2: "advance t (counting (now + 1000) 2 st) = advance t (counting (now + 2000) 1 st)" if "now + 2000 \<le> t"
    using advance_counting_tick [of 2 "now + 1000" t st] that by (simp add: ac_simps)
  have c1: "advance t (counting (now + 2000) 1 st) = advance t (takePhoto (now + 3000) (posing st))" if "now + 3000 \<le> t"
    using advance_counting_last [of "now + 2000" t st] that by (simp add: ac_simps)
  show ?thesis
  proof (cases "t < now + 1000")
    case True
    then show ?thesis by (simp add: advance_counting_wait)
  next
    case n1: False
    show ?thesis
    proof (cases "t < now + 2000")
      case True
      then show ?thesis using n1 c3 advance_counting_wait [of t "now + 1000" 2 st] by simp
    next
      case n2: False
      show ?thesis
      proof (cases "t < now + 3000")
        case True
        then show ?thesis using n1 n2 c3 c2 advance_counting_wait [of t "now + 2000" 1 st] by simp
      next
        case False
        then show ?thesis using n1 n2 c3 c2 c1 by simp
      qed
    qed
  qed
qed

lemma advance_click:
  assumes "canTrigger now st"
  shows "advance t (clickSnap now st) =
           (if t < now + 1000 then counting now 3 st
            else if t < now + 2000 then counting (now + 1000) 2 st
            else if t < now + 3000 then counting (now + 2000) 1 st
            else advance t (takePhoto (now + 3000) (posing st)))"
  unfolding clickSnap_accepted [OF assms] by (rule advance_counting)

lemma capture_from_click:
  assumes "canTrigger now st" "hasResources st"
  shows "captureState (advance t (clickSnap now st)) =
           (if t < now + 3000 then COUNTDOWN
            else if t < now + 3150 then FLASH
            else if t < now + 7500 then DEVELOPING
            else if t < now + 8500 then FLYING
            else IDLE)"
proof -
  have r: "hasResources (posing st)" "timers (posing st) = []"
    using assms by (simp_all add: posing_fields)
  show ?thesis
    using captureState_advance_takePhoto [OF r, of t "now + 3000"]
    by (simp add: advance_click [OF assms(1)] counting_fields)
qed

lemma clickSnap_rejected:
  "captureState st \<noteq> IDLE \<or> now - lastCaptureTime st < 4000 \<Longrightarrow> clickSnap now st = st"
  by (auto simp: clickSnap_def triggerCountdown_def)

lemma takePhoto_no_resources: "\<not> hasResources st \<Longrightarrow> takePhoto now st = st"
  by (auto simp: takePhoto_def hasResources_def)

lemma click_after_trigger:
  assumes "canTrigger now st" "t < now + 11500"
  shows "clickSnap t (advance t (clickSnap now st)) = advance t (clickSnap now st)"
proof (cases "hasResources st")
  case True
  have r: "hasResources (posing st)" "timers (posing st) = []"
    using True by (simp_all add: posing_fields)
  show ?thesis
  proof (cases "t < now + 8500")
    case True
    then have "captureState (advance t (clickSnap now st)) \<noteq> IDLE"
      using capture_from_click [OF assms(1) \<open>hasResources st\<close>, of t] by simp
    then show ?thesis by (simp add: clickSnap_rejected)
  next
    case False
    then have "advance t (clickSnap now st) = settled (now + 3000) (posing st)"
      by (simp add: advance_click [OF assms(1)] advance_takePhoto [OF r])
    moreover have "t - lastCaptureTime (settled (now + 3000) (posing st)) < 4000"
      using assms(2) by (simp add: settled_fields [OF r])
    ultimately show ?thesis by (simp add: clickSnap_rejected)
  qed
next
  case False
  then have n: "takePhoto (now + 3000) (posing st) = posing st"
    by (simp add: takePhoto_no_resources posing_fields)
  have "captureState (advance t (clickSnap now st)) = COUNTDOWN"
    by (simp add: advance_click [OF assms(1)] counting_fields n advance_Nil posing_fields)
       (simp add: posing_def)
  then show ?thesis by (simp add: clickSnap_rejected)
qed



lemma canTrigger_app0: "canTrigger 10000 app0"
  by (simp add: canTrigger_def app0_fields)

lemma hasResources_app0: "hasResources app0"
  by (simp add: hasResources_def app0_fields)

lemma posing_app0: "hasResources (posing app0)" "timers (posing app0) = []"
  by (simp_all add: posing_fields hasResources_app0)

lemma predictLoop_cooldown:
  "now - lastCaptureTime st < 2000 \<Longrightarrow> predictLoop now det st = st"
  by (simp add: predictLoop_def)

lemma shotApp_eq: "shotApp = settled 13000 (posing app0)"
proof -
  have "exec [(10000, Click)] app0 = clickSnap 10000 app0"
    by (simp add: exec_def step_def advance_Nil app0_fields)
  moreover have "advance 18500 (clickSnap 10000 app0) = settled 13000 (posing app0)"
    by (simp add: advance_click [OF canTrigger_app0] advance_takePhoto [OF posing_app0])
  moreover have "predictLoop 18500 NoHand (settled 13000 (posing app0)) = settled 13000 (posing app0)"
    by (rule predictLoop_cooldown) (simp add: settled_fields [OF posing_app0])
  ultimately show ?thesis by (simp add: shotApp_def exec_def step_def)
qed

lemma settled_keeps:
  "isMounted (settled t0 st) = isMounted st" "video (settled t0 st) = video st"
  "landmarker (settled t0 st) = landmarker st" "zoomedPhoto (settled t0 st) = zoomedPhoto st"
  "pinchHoldTime (settled t0 st) = pinchHoldTime st"
  "mainGroup (settled t0 st) = mainGroup st" "camera (settled t0 st) = camera st"
  by (simp_all add: settled_def flying_def developing_def takePhoto_def rerender_def
      countdownEffect_def cleanupTicks_def Let_def)

lemma particles_settled:
  assumes "hasResources st"
  shows "\<exists>p. particles (settled t0 st) = particles st @ [p] \<and> isPhoto p \<and> visible p"
  using assms
  by (auto simp: settled_def flying_def developing_def takePhoto_def rerender_def
      countdownEffect_def cleanupTicks_def Let_def hasResources_def)

lemma photoIndices_snoc:
  assumes "list_all (\<lambda>p. \<not> isPhoto p) qs" "isPhoto p"
  shows "photoIndices (qs @ [p]) = [length qs]"
proof -
  have "filter (\<lambda>i. isPhoto ((qs @ [p]) ! i)) [0..<length qs] = []"
    using assms(1) by (auto simp: filter_empty_conv list_all_length nth_append)
  then show ?thesis using assms(2) by (simp add: photoIndices_def)
qed

lemma particles_app0: "length (particles app0) = 1351" "list_all (\<lambda>p. \<not> isPhoto p) (particles app0)"
  using sceneInit_allocated [of None "\<lambda>n. 1 / 2"] by (simp_all add: app0_def readyApp_def)

lemma shotApp_fields:
  "captureState shotApp = IDLE" "timers shotApp = []" "lastCaptureTime shotApp = 17500"
  "isMounted shotApp" "video shotApp = Some 4" "landmarker shotApp" "zoomedPhoto shotApp = None"
  "pinchHoldTime shotApp = 0" "hasResources shotApp"
  by (simp_all add: shotApp_eq settled_fields [OF posing_app0] settled_keeps posing_keeps
      app0_fields hasResources_def)

lemma photoIndices_shotApp: "photoIndices (particles shotApp) = [1351]"
proof -
  obtain p where p: "particles shotApp = particles (posing app0) @ [p]" "isPhoto p"
    using particles_settled [OF posing_app0(1), of 13000] by (auto simp: shotApp_eq)
  show ?thesis
    using photoIndices_snoc [of "particles app0" p] p particles_app0
    by (simp add: posing_fields)
qed

lemma rand_settled: "hasResources st \<Longrightarrow> rand (settled t0 st) = shift 8 (rand st)"
  by (auto simp: settled_def flying_def developing_def takePhoto_def rerender_def
      countdownEffect_def cleanupTicks_def Let_def hasResources_def)

lemma holding_shotApp: "holding 0 shotApp"
proof -
  have "rand shotApp = shift 8 (rand (posing app0))"
    unfolding shotApp_eq by (rule rand_settled [OF posing_app0(1)])
  then have "rand shotApp 0 = 1 / 2"
    by (simp add: shift_def posing_def app0_def readyApp_def)
  then show ?thesis by (simp add: holding_def shotApp_fields)
qed

lemma holding_gate: "holding k s \<Longrightarrow> 19500 \<le> t \<Longrightarrow> gateOpen t s"
  by (simp add: holding_def gateOpen_def)

lemma holding_step:
  assumes "holding k s" "k < 15" "19500 \<le> t"
  shows "holding (Suc k) (step (t, Frame (Hand handPinch)) s)"
proof -
  have a: "advance t s = s" using assms(1) by (simp add: advance_Nil holding_def)
  show ?thesis
    using assms
    by (simp add: step_def a predictLoop_open [OF holding_gate [OF assms(1,3)]] length_hands
        classify_hands handleGesture_def Let_def) (simp add: holding_def)
qed

lemma exec_pinchFrames_Suc:
  "exec (pinchFrames (Suc n)) st
   = step (20000 + 16 * int n, Frame (Hand handPinch)) (exec (pinchFrames n) st)"
  by (simp add: exec_def pinchFrames_def)

lemma holding_run: "n \<le> 15 \<Longrightarrow> holding n (exec (pinchFrames n) shotApp)"
proof (induction n)
  case 0
  then show ?case by (simp add: exec_def pinchFrames_def holding_shotApp)
next
  case (Suc n)
  then have "holding n (exec (pinchFrames n) shotApp)" by simp
  then show ?case
    unfolding exec_pinchFrames_Suc using Suc.prems by (intro holding_step) simp_all
qed

lemma zoomedApp_fields:
  "zoomedPhoto zoomedApp = Some 1351" "pinchHoldTime zoomedApp = 16" "timers zoomedApp = []"
  "gateOpen 20300 zoomedApp"
proof -
  let ?s = "exec (pinchFrames 15) shotApp"
  have h: "holding 15 ?s" by (rule holding_run) simp
  have a: "advance 20240 ?s = ?s" using h by (simp add: advance_Nil holding_def)
  have g: "gateOpen 20240 ?s" by (rule holding_gate [OF h]) simp
  have z: "zoomedApp = step (20240, Frame (Hand handPinch)) ?s"
    using exec_pinchFrames_Suc [of 15 shotApp] by (simp add: zoomedApp_def)
  have p: "photoIndices (particles ?s) = [1351]"
    using h by (simp add: holding_def photoIndices_shotApp)
  have e: "zoomedApp = pickZoom (?s\<lparr>gesture := PINCH, currentGesture := PINCH,
              rotationSpeed := (0.5 - lx (handPinch ! 0)) * 0.035, pinchHoldTime := 16\<rparr>)"
    using h
    by (simp add: z step_def a predictLoop_open [OF g] length_hands classify_hands
        handleGesture_def Let_def holding_def)
  show "zoomedPhoto zoomedApp = Some 1351"
    using h p unfolding e by (simp add: pickZoom_def Let_def holding_def)
  show "pinchHoldTime zoomedApp = 16"
    using h p unfolding e by (simp add: pickZoom_def Let_def holding_def)
  show "timers zoomedApp = []"
    using h p unfolding e by (simp add: pickZoom_def Let_def holding_def)
  show "gateOpen 20300 zoomedApp"
    using h p unfolding e by (simp add: pickZoom_def Let_def holding_def gateOpen_def)
qed

text \<open>
  After the pinch hold (counter 16, photo 1351 zoomed) an open-palm frame resets the
  pinch counter, clears the lock and enters SCATTER.
\<close>

lemma zoomedApp_open_palm:
  "pinchHoldTime (predictLoop 20300 (Hand handOpenPalm) zoomedApp) = 0
   \<and> zoomedPhoto (predictLoop 20300 (Hand handOpenPalm) zoomedApp) = None
   \<and> appMode (predictLoop 20300 (Hand handOpenPalm) zoomedApp) = SCATTER"
  by (rule mode_frame_resets) (simp_all add: zoomedApp_fields length_hands classify_hands)

lemma shotApp_advance: "t \<ge> 18500 \<Longrightarrow> advance t (clickSnap 10000 app0) = shotApp"
  by (simp add: advance_click [OF canTrigger_app0] advance_takePhoto [OF posing_app0] shotApp_eq)

lemma lShapeHoldTime_settled: "lShapeHoldTime (settled t0 st) = 0"
  by (simp add: settled_def flying_def rerender_def countdownEffect_def cleanupTicks_def Let_def)

lemma holdingL_shotApp: "holdingL 0 shotApp"
  by (simp add: holdingL_def shotApp_fields) (simp add: shotApp_eq lShapeHoldTime_settled)

lemma holdingL_gate: "holdingL k s \<Longrightarrow> 19500 \<le> t \<Longrightarrow> gateOpen t s"
  by (simp add: holdingL_def gateOpen_def)

lemma holdingL_step:
  assumes "holdingL k s" "k < 30" "19500 \<le> t"
  shows "holdingL (Suc k) (step (t, Frame (Hand handLShape)) s)"
proof -
  have a: "advance t s = s" using assms(1) by (simp add: advance_Nil holdingL_def)
  show ?thesis
    using assms
    by (simp add: step_def a predictLoop_open [OF holdingL_gate [OF assms(1,3)]] length_hands
        classify_hands handleGesture_def Let_def) (simp add: holdingL_def)
qed

lemma exec_lFrames_Suc:
  "exec (lFrames (Suc n)) st
   = step (19500 + 16 * int n, Frame (Hand handLShape)) (exec (lFrames n) st)"
  by (simp add: exec_def lFrames_def)

lemma holdingL_run: "n \<le> 30 \<Longrightarrow> holdingL n (exec (lFrames n) shotApp)"
proof (induction n)
  case 0
  then show ?case by (simp add: exec_def lFrames_def holdingL_shotApp)
next
  case (Suc n)
  then have "holdingL n (exec (lFrames n) shotApp)" by simp
  then show ?case
    unfolding exec_lFrames_Suc using Suc.prems by (intro holdingL_step) simp_all
qed

lemma heldApp_fields:
  "lShapeHoldTime heldApp = 30" "captureState heldApp = IDLE" "lastCaptureTime heldApp = 17500"
  "timers heldApp = []" "gateOpen 19980 heldApp"
  using holdingL_run [of 30] by (simp_all add: heldApp_def holdingL_def gateOpen_def)

lemma heldApp_crosses: "lShapeHoldTime (predictLoop 19980 (Hand handLShape) heldApp) = 31"
  by (simp add: predictLoop_open [OF heldApp_fields(5)] length_hands classify_hands
      handleGesture_def Let_def triggerCountdown_def heldApp_fields)

lemma advance_advance: "t1 \<le> t2 \<Longrightarrow> advance t2 (advance t1 st) = advance t2 st"
proof (induction t1 st rule: advance.induct)
  case (1 t st)
  show ?case
  proof (cases "nextDue (timers st)")
    case None
    then show ?thesis by (simp add: advance.simps [of t st])
  next
    case (Some ta)
    obtain due a where ta: "ta = (due, a)" by (cases ta)
    have n: "nextDue (timers st) = Some (due, a)" using Some ta by simp
    show ?thesis
    proof (cases "due \<le> t")
      case True
      let ?s = "fire due a (st\<lparr>timers := remove1 (due, a) (timers st)\<rparr>)"
      have "advance t2 (advance t st) = advance t2 (advance t ?s)"
        using advance_fire [OF n True] by simp
      also have "\<dots> = advance t2 ?s"
        by (rule "1.IH" [OF Some ta [symmetric] True "1.prems"])
      also have "\<dots> = advance t2 st"
        using advance_fire [OF n, of t2] True "1.prems" by simp
      finally show ?thesis .
    next
      case False
      then show ?thesis using advance_wait [OF n, of t] by simp
    qed
  qed
qed

lemma step_busy:
  "captureState (advance (fst te) st) \<noteq> IDLE \<Longrightarrow> step te st = advance (fst te) st"
  by (cases "snd te") (simp_all add: step_def Let_def predictLoop_def clickSnap_rejected)

lemma exec_busy:
  assumes "\<And>u. u < b \<Longrightarrow> captureState (advance u s0) \<noteq> IDLE"
  shows "sorted (map fst evs) \<Longrightarrow> (\<forall>te \<in> set evs. u \<le> fst te \<and> fst te < b \<and> fst te \<le> t) \<Longrightarrow>
         advance t (exec evs (advance u s0)) = advance t (advance u s0)"
proof (induction evs arbitrary: u)
  case Nil
  then show ?case by (simp add: exec_def)
next
  case (Cons te evs)
  have te: "u \<le> fst te" "fst te < b" "fst te \<le> t" using Cons.prems(2) by simp_all
  have a: "advance (fst te) (advance u s0) = advance (fst te) s0"
    by (rule advance_advance [OF te(1)])
  have "step te (advance u s0) = advance (fst te) (advance u s0)"
    by (rule step_busy) (simp add: a assms [OF te(2)])
  then have s: "step te (advance u s0) = advance (fst te) s0" by (simp add: a)
  have "advance t (exec evs (advance (fst te) s0)) = advance t (advance (fst te) s0)"
    using Cons.prems by (intro Cons.IH) auto
  then have "advance t (exec (te # evs) (advance u s0)) = advance t (advance (fst te) s0)"
    by (simp add: exec_def s)
  also have "\<dots> = advance t s0" by (rule advance_advance [OF te(3)])
  also have "\<dots> = advance t (advance u s0)"
    using advance_advance [of u t s0] te by simp
  finally show ?case .
qed

lemma advance_before:
  assumes "hasResources st" "timers st = []"
  shows "advance t0 (takePhoto t0 st) = takePhoto t0 st"
  by (simp add: advance_takePhoto [OF assms])

lemma capture_with_events:
  assumes "hasResources st" "timers st = []"
    and "sorted (map fst evs)"
    and "\<forall>te \<in> set evs. t0 \<le> fst te \<and> fst te < t0 + 5500 \<and> fst te \<le> t"
  shows "captureState (advance t (exec evs (takePhoto t0 st))) =
           (if t < t0 + 150 then FLASH
            else if t < t0 + 4500 then DEVELOPING
            else if t < t0 + 5500 then FLYING
            else IDLE)"
proof -
  let ?s0 = "takePhoto t0 st"
  have busy: "captureState (advance u ?s0) \<noteq> IDLE" if "u < t0 + 5500" for u
    using that by (simp add: captureState_advance_takePhoto [OF assms(1,2)])
  have "advance t (exec evs (advance t0 ?s0)) = advance t (advance t0 ?s0)"
    using assms(3,4) by (intro exec_busy [where b = "t0 + 5500"] busy) auto
  then have "advance t (exec evs ?s0) = advance t ?s0"
    by (simp add: advance_before [OF assms(1,2)])
  then show ?thesis by (simp add: captureState_advance_takePhoto [OF assms(1,2)])
qed

lemma hold_crosses_trigger:
  assumes "holdCrosses now l st" "canTrigger now st"
  shows "predictLoop now (Hand l) st =
           counting now 3
             (st\<lparr>gesture := L_SHAPE, currentGesture := L_SHAPE,
                 rotationSpeed := (0.5 - lx (l ! 0)) * 0.035, pinchHoldTime := 0,
                 lShapeHoldTime := lShapeHoldTime st + 1,
                 holdBar := map_option (\<lambda>w. 100) (holdBar st)\<rparr>)"
proof -
  have g: "gateOpen now st" "21 \<le> length l" "classifyGesture l = L_SHAPE" "30 \<le> lShapeHoldTime st"
    using assms(1) by (simp_all add: holdCrosses_def)
  have m: "min (real (lShapeHoldTime st + 1) / 30 * 100) 100 = 100"
    using g(4) by (simp add: min_def)
  show ?thesis
    using assms(2) g(4) m
    by (intro App.equality)
       (simp_all add: predictLoop_open [OF g(1,2)] g(3) handleGesture_def Let_def
          triggerCountdown_def rerender_def countdownEffect_def cleanupTicks_def counting_def
          canTrigger_def)
qed

lemma view_handleGesture:
  "now - lastCaptureTime s < 4000 \<Longrightarrow> captureView (handleGesture now g s) = captureView s"
  by (cases g) (simp_all add: handleGesture_def Let_def triggerCountdown_def pickZoom_def captureView_def)

lemma view_predictLoop:
  "now - lastCaptureTime st < 4000 \<Longrightarrow> captureView (predictLoop now det st) = captureView st"
proof -
  assume c: "now - lastCaptureTime st < 4000"
  have v: "captureView (handleGesture now g (st\<lparr>gesture := g, currentGesture := g, rotationSpeed := r\<rparr>))
           = captureView st" for g r
    using view_handleGesture [of now "st\<lparr>gesture := g, currentGesture := g, rotationSpeed := r\<rparr>" g] c
    by (simp add: captureView_def)
  show ?thesis
    by (cases det) (simp_all add: predictLoop_def Let_def v, simp_all add: captureView_def)
qed

lemma predictLoop_busy: "captureState st \<noteq> IDLE \<Longrightarrow> predictLoop now det st = st"
  by (simp add: predictLoop_def)

lemma view_step:
  assumes "timers s = []" "fst te - lastCaptureTime s < 4000"
  shows "captureView (step te s) = captureView s"
proof -
  have a: "advance (fst te) s = s" using assms(1) by (rule advance_Nil)
  show ?thesis
    using assms(2)
    by (cases "snd te") (simp_all add: step_def Let_def a view_predictLoop clickSnap_rejected)
qed

lemma view_exec:
  assumes "timers sF = []"
  shows "captureView s = captureView sF \<Longrightarrow> \<forall>te \<in> set evs. fst te - lastCaptureTime sF < 4000 \<Longrightarrow>
         captureView (exec evs s) = captureView sF"
proof (induction evs arbitrary: s)
  case Nil
  then show ?case by (simp add: exec_def)
next
  case (Cons te evs)
  have f: "timers s = []" "lastCaptureTime s = lastCaptureTime sF"
    using Cons.prems(1) assms by (simp_all add: captureView_def)
  have "captureView (step te s) = captureView s"
    using Cons.prems(2) f by (intro view_step) simp_all
  then have "captureView (exec evs (step te s)) = captureView sF"
    using Cons.prems by (intro Cons.IH) simp_all
  then show ?case by (simp add: exec_def)
qed

lemma exec_settling:
  assumes busy: "\<And>u. u < b \<Longrightarrow> captureState (advance u s0) \<noteq> IDLE"
    and fin: "\<And>u. b \<le> u \<Longrightarrow> advance u s0 = sF"
    and sF: "timers sF = []"
  shows "sorted (map fst evs) \<Longrightarrow>
         (\<forall>te \<in> set evs. u \<le> fst te \<and> fst te - lastCaptureTime sF < 4000 \<and> fst te \<le> t) \<Longrightarrow>
         u \<le> t \<Longrightarrow>
         captureView (advance t (exec evs (advance u s0))) = captureView (advance t s0)"
proof (induction evs arbitrary: u)
  case Nil
  then show ?case by (simp add: exec_def advance_advance)
next
  case (Cons te evs)
  have te: "u \<le> fst te" "fst te - lastCaptureTime sF < 4000" "fst te \<le> t"
    using Cons.prems(2) by simp_all
  have a: "advance (fst te) (advance u s0) = advance (fst te) s0"
    by (rule advance_advance [OF te(1)])
  show ?case
  proof (cases "fst te < b")
    case True
    have "step te (advance u s0) = advance (fst te) (advance u s0)"
      by (rule step_busy) (simp add: a busy [OF True])
    then have s: "step te (advance u s0) = advance (fst te) s0" by (simp add: a)
    have "captureView (advance t (exec evs (advance (fst te) s0))) = captureView (advance t s0)"
      using Cons.prems te by (intro Cons.IH) auto
    then show ?thesis by (simp add: exec_def s)
  next
    case False
    then have b: "b \<le> fst te" "b \<le> t" using te(3) by simp_all
    have sf: "advance (fst te) s0 = sF" by (rule fin [OF b(1)])
    have a2: "advance (fst te) (advance u s0) = sF" "advance (fst te) sF = sF"
      using a sf by (simp_all add: advance_Nil sF)
    have st: "step te (advance u s0) = step te sF"
      by (cases "snd te") (simp_all add: step_def Let_def a2)
    have "captureView (step te sF) = captureView sF"
      by (rule view_step [OF sF te(2)])
    then have v: "captureView (exec evs (step te sF)) = captureView sF"
      using Cons.prems(2) by (intro view_exec [OF sF]) simp_all
    then have "timers (exec evs (step te sF)) = []"
      using sF by (simp add: captureView_def)
    then have "advance t (exec evs (step te sF)) = exec evs (step te sF)"
      by (rule advance_Nil)
    then show ?thesis using v by (simp add: exec_def st fin [OF b(2)])
  qed
qed

lemma posing_resources: "hasResources (posing st) = hasResources st"
  by (simp add: posing_def hasResources_def)

lemma capture_undisturbed:
  assumes "sorted (map fst evs)"
    and "\<forall>te \<in> set evs. now \<le> fst te \<and> fst te < now + 11500 \<and> fst te \<le> t"
  shows "captureView (advance t (exec evs (counting now 3 st)))
         = captureView (advance t (counting now 3 st))"
proof (cases "evs = []")
  case True
  then show ?thesis by (simp add: exec_def)
next
  case ne: False
  then obtain te where "te \<in> set evs" by (cases evs) auto
  then have nt: "now \<le> t" using assms(2) by fastforce
  let ?s0 = "counting now 3 st"
  have a0: "advance now ?s0 = ?s0" by (simp add: advance_counting_wait)
  show ?thesis
  proof (cases "hasResources st")
    case True
    have r: "hasResources (posing st)" "timers (posing st) = []"
      using True by (simp_all add: posing_fields)
    let ?sF = "settled (now + 3000) (posing st)"
    have busy: "captureState (advance u ?s0) \<noteq> IDLE" if "u < now + 8500" for u
      using that captureState_advance_takePhoto [OF r, of u "now + 3000"]
      by (simp add: advance_counting counting_fields)
    have fin: "advance u ?s0 = ?sF" if "now + 8500 \<le> u" for u
      using that by (simp add: advance_counting advance_takePhoto [OF r])
    have sF: "timers ?sF = []" "lastCaptureTime ?sF = now + 7500"
      by (simp_all add: settled_fields [OF r])
    have "captureView (advance t (exec evs (advance now ?s0))) = captureView (advance t ?s0)"
      using assms nt
      by (intro exec_settling [where b = "now + 8500" and sF = ?sF] busy fin sF(1))
         (auto simp: sF(2))
    then show ?thesis by (simp add: a0)
  next
    case False
    then have n: "takePhoto (now + 3000) (posing st) = posing st"
      by (simp add: takePhoto_no_resources posing_resources)
    have busy: "captureState (advance u ?s0) \<noteq> IDLE" for u
      by (simp add: advance_counting counting_fields n advance_Nil posing_fields)
         (simp add: posing_def)
    have "advance t (exec evs (advance now ?s0)) = advance t (advance now ?s0)"
      using assms by (intro exec_busy [where b = "t + 1"] busy) auto
    then show ?thesis by (simp add: a0)
  qed
qed


lemma holdingL_heldApp: "holdingL 30 heldApp"
  unfolding heldApp_def by (rule holdingL_run) simp

lemma heldApp_ready: "canTrigger 22000 heldApp" "holdCrosses 22000 handLShape heldApp"
  using holdingL_heldApp holdingL_gate [OF holdingL_heldApp, of 22000]
  by (simp_all add: canTrigger_def holdCrosses_def holdingL_def length_hands classify_hands)


lemma holdingL_mode:
  assumes "holdingL k s" "19500 \<le> t" "21 \<le> length l" "modeOf (classifyGesture l) = Some m"
  shows "holdingL k (step (t, Frame (Hand l)) s)"
proof -
  have a: "advance t s = s" using assms(1) by (simp add: advance_Nil holdingL_def)
  have g: "gateOpen t s" by (rule holdingL_gate [OF assms(1,2)])
  show ?thesis
    using assms(1) mode_frame_keeps [OF g assms(3,4)]
    by (simp add: step_def a holdingL_def)
qed

lemma lshape_after_palm:
  "lShapeHoldTime (exec [(10000, Frame (Hand handLShape)), (10016, Frame (Hand l))] app0)
   = lShapeHoldTime (predictLoop 10016 (Hand l) frameL)"
  by (simp add: exec_def step_def advance_Nil app0_fields frameL_def [symmetric] frameL_fields)

text \<open>
  C1. A processed frame classified OPEN_PALM, FIST or THUMBS_UP takes the mode
  transition and leaves the L-shape hold counter as it was: after one L-shape frame the
  counter is still 1 after an open-palm, a fist or a thumbs-up frame, whereas a frame
  whose hand matches no rule resets it to 0. After an L-shape held for 30 frames an
  open-palm frame enters SCATTER with the counter still at 30, and a single L-shape
  frame eight seconds later starts the countdown.
\<close>

theorem C1_lshape_counter_kept:
  "appMode (exec [(10000, Frame (Hand handLShape)), (10016, Frame (Hand handOpenPalm))] app0) = SCATTER
   \<and> lShapeHoldTime (exec [(10000, Frame (Hand handLShape)), (10016, Frame (Hand handOpenPalm))] app0) = 1
   \<and> lShapeHoldTime (exec [(10000, Frame (Hand handLShape)), (10016, Frame (Hand handFist))] app0) = 1
   \<and> lShapeHoldTime (exec [(10000, Frame (Hand handLShape)), (10016, Frame (Hand handThumbsUp))] app0) = 1
   \<and> lShapeHoldTime (exec [(10000, Frame (Hand handLShape)), (10016, Frame (Hand handNone))] app0) = 0
   \<and> lShapeHoldTime heldApp = 30
   \<and> appMode (exec [(22000, Frame (Hand handOpenPalm))] heldApp) = SCATTER
   \<and> lShapeHoldTime (exec [(22000, Frame (Hand handOpenPalm))] heldApp) = 30
   \<and> captureState (exec [(22000, Frame (Hand handOpenPalm)), (30000, Frame (Hand handLShape))] heldApp)
       = COUNTDOWN"
proof -
  let ?p = "step (22000, Frame (Hand handOpenPalm)) heldApp"
  have a: "appMode (exec [(10000, Frame (Hand handLShape)), (10016, Frame (Hand handOpenPalm))] app0) = SCATTER"
    by (simp add: exec_def step_def advance_Nil app0_fields frameL_def [symmetric] frameL_fields
        predictLoop_open length_hands classify_hands handleGesture_def)
  have k: "lShapeHoldTime (predictLoop 10016 (Hand l) frameL) = 1"
    if "21 \<le> length l" "modeOf (classifyGesture l) = Some m" for l m
    using mode_frame_keeps [OF frameL_fields(5) that] by (simp add: frameL_fields)
  have n: "lShapeHoldTime (predictLoop 10016 (Hand handNone) frameL) = 0"
    using predictLoop_none_resets [OF frameL_fields(5), of handNone]
    by (simp add: length_hands classify_hands)
  have h: "holdingL 30 ?p"
    by (rule holdingL_mode [OF holdingL_heldApp, of _ _ SCATTER])
       (simp_all add: length_hands classify_hands)
  have e1: "exec [(22000, Frame (Hand handOpenPalm))] heldApp = ?p"
    by (simp add: exec_def)
  have ah: "advance 22000 heldApp = heldApp"
    by (simp add: advance_Nil heldApp_fields)
  have gh: "gateOpen 22000 heldApp"
    by (rule holdingL_gate [OF holdingL_heldApp]) simp
  have m: "appMode ?p = SCATTER"
    using mode_frame_resets [OF gh, of handOpenPalm SCATTER]
    by (simp add: step_def ah length_hands classify_hands)
  have ap: "advance 30000 ?p = ?p" using h by (simp add: advance_Nil holdingL_def)
  have c: "holdCrosses 30000 handLShape ?p"
    using h holdingL_gate [OF h, of 30000]
    by (simp add: holdCrosses_def length_hands classify_hands holdingL_def)
  have t: "canTrigger 30000 ?p" using h by (simp add: canTrigger_def holdingL_def)
  have e2: "exec [(22000, Frame (Hand handOpenPalm)), (30000, Frame (Hand handLShape))] heldApp
            = predictLoop 30000 (Hand handLShape) ?p"
    by (simp add: exec_def step_def [of "(30000, Frame (Hand handLShape))"] ap)
  have cs: "captureState (predictLoop 30000 (Hand handLShape) ?p) = COUNTDOWN"
    unfolding hold_crosses_trigger [OF c t] by (simp add: counting_def)
  show ?thesis
    using a k [of handOpenPalm SCATTER] k [of handFist TREE] k [of handThumbsUp TEXT] n h m cs
    by (simp add: lshape_after_palm e1 e2 length_hands classify_hands heldApp_fields holdingL_def)
qed

text \<open>
  C3, amended. A trigger attempt is rejected whenever the capture state is not IDLE or
  fewer than 4000 ms have passed since \<^verbatim>\<open>lastCaptureTime\<close>, the time at which the
  previous capture entered FLYING. A rejected click on Snap leaves the whole state as it
  was. A frame of the prediction loop that arrives while the capture state is not IDLE
  is skipped and leaves the whole state as it was, L-shape hold or not; a frame inside
  the cooldown leaves the capture state, the countdown, the timers and the rest of the
  capture's part of the state as they were, also when the L-shape hold crosses its
  threshold in it. As a consequence, after a trigger accepted at time \<open>now\<close>, from
  the Snap button or from the L-shape hold, no clicks and frames arriving before
  \<open>now + 11500\<close> change the course of the capture: seen at any time, the capture's
  part of the state is what it is without them.
\<close>

theorem C3_trigger_rejected:
  "(captureState st \<noteq> IDLE \<or> now - lastCaptureTime st < 4000 \<longrightarrow> clickSnap now st = st)
   \<and> (captureState st \<noteq> IDLE \<longrightarrow> predictLoop now det st = st)
   \<and> (now - lastCaptureTime st < 4000 \<longrightarrow>
        captureState (predictLoop now det st) = captureState st
        \<and> countdown (predictLoop now det st) = countdown st
        \<and> timers (predictLoop now det st) = timers st
        \<and> captureView (predictLoop now det st) = captureView st)
   \<and> (canTrigger now st \<and> t < now + 11500 \<longrightarrow>
        clickSnap t (advance t (clickSnap now st)) = advance t (clickSnap now st))
   \<and> (canTrigger now st \<and> sorted (map fst evs)
        \<and> (\<forall>te \<in> set evs. now \<le> fst te \<and> fst te < now + 11500 \<and> fst te \<le> t) \<longrightarrow>
        captureState (clickSnap now st) = COUNTDOWN
        \<and> captureView (advance t (exec evs (clickSnap now st)))
          = captureView (advance t (clickSnap now st)))
   \<and> (canTrigger now st \<and> holdCrosses now l st \<and> sorted (map fst evs)
        \<and> (\<forall>te \<in> set evs. now \<le> fst te \<and> fst te < now + 11500 \<and> fst te \<le> t) \<longrightarrow>
        captureState (predictLoop now (Hand l) st) = COUNTDOWN
        \<and> captureView (advance t (exec evs (predictLoop now (Hand l) st)))
          = captureView (advance t (predictLoop now (Hand l) st)))"
proof (intro conjI impI)
  assume "captureState st \<noteq> IDLE \<or> now - lastCaptureTime st < 4000"
  then show "clickSnap now st = st" by (rule clickSnap_rejected)
next
  assume "captureState st \<noteq> IDLE"
  then show "predictLoop now det st = st" by (rule predictLoop_busy)
next
  assume c: "now - lastCaptureTime st < 4000"
  show v: "captureView (predictLoop now det st) = captureView st"
    by (rule view_predictLoop [OF c])
  show "captureState (predictLoop now det st) = captureState st"
    using v by (simp add: captureView_def)
  show "countdown (predictLoop now det st) = countdown st"
    using v by (simp add: captureView_def)
  show "timers (predictLoop now det st) = timers st"
    using v by (simp add: captureView_def)
next
  assume "canTrigger now st \<and> t < now + 11500"
  then show "clickSnap t (advance t (clickSnap now st)) = advance t (clickSnap now st)"
    using click_after_trigger by blast
next
  assume h: "canTrigger now st \<and> sorted (map fst evs)
             \<and> (\<forall>te \<in> set evs. now \<le> fst te \<and> fst te < now + 11500 \<and> fst te \<le> t)"
  then have c: "clickSnap now st = counting now 3 st" by (simp add: clickSnap_accepted)
  show "captureState (clickSnap now st) = COUNTDOWN"
    unfolding c by (simp add: counting_def)
  show "captureView (advance t (exec evs (clickSnap now st)))
        = captureView (advance t (clickSnap now st))"
    unfolding c using h by (intro capture_undisturbed) simp_all
next
  assume h: "canTrigger now st \<and> holdCrosses now l st \<and> sorted (map fst evs)
             \<and> (\<forall>te \<in> set evs. now \<le> fst te \<and> fst te < now + 11500 \<and> fst te \<le> t)"
  then have c: "predictLoop now (Hand l) st =
           counting now 3
             (st\<lparr>gesture := L_SHAPE, currentGesture := L_SHAPE,
                 rotationSpeed := (0.5 - lx (l ! 0)) * 0.035, pinchHoldTime := 0,
                 lShapeHoldTime := lShapeHoldTime st + 1,
                 holdBar := map_option (\<lambda>w. 100) (holdBar st)\<rparr>)"
    by (intro hold_crosses_trigger) simp_all
  show "captureState (predictLoop now (Hand l) st) = COUNTDOWN"
    unfolding c by (simp add: counting_def)
  show "captureView (advance t (exec evs (predictLoop now (Hand l) st)))
        = captureView (advance t (predictLoop now (Hand l) st))"
    unfolding c using h by (intro capture_undisturbed) simp_all
qed

text \<open>
  Witness for C3, in the concrete session (click at 10 s, photo released at 17.5 s, idle
  from 18.5 s): a click at 19 s is rejected; an L-shape frame during the countdown, at
  10.5 s, changes nothing; the L-shape hold crossing its threshold at 19.98 s leaves the
  state idle; clicks and L-shape frames up to 21.4 s leave the capture started at 10 s
  on its course; and so do those up to 33.4 s for the capture that the L-shape hold
  starts at 22 s.
\<close>

theorem C3_trigger_rejected_witness:
  "captureState shotApp = IDLE \<and> 19000 - lastCaptureTime shotApp < 4000
   \<and> clickSnap 19000 shotApp = shotApp
   \<and> captureState (clickSnap 10000 app0) = COUNTDOWN
   \<and> predictLoop 10500 (Hand handLShape) (clickSnap 10000 app0) = clickSnap 10000 app0
   \<and> lShapeHoldTime heldApp = 30 \<and> 19980 - lastCaptureTime heldApp < 4000
   \<and> lShapeHoldTime (predictLoop 19980 (Hand handLShape) heldApp) = 31
   \<and> captureState (predictLoop 19980 (Hand handLShape) heldApp) = IDLE
   \<and> timers (predictLoop 19980 (Hand handLShape) heldApp) = []
   \<and> canTrigger 10000 app0
   \<and> clickSnap 21400 (advance 21400 (clickSnap 10000 app0)) = advance 21400 (clickSnap 10000 app0)
   \<and> captureView (advance 21400
        (exec [(10500, Click), (12000, Frame (Hand handLShape)), (14000, Click),
               (19000, Frame (Hand handLShape)), (21400, Click)] (clickSnap 10000 app0)))
       = captureView (advance 21400 (clickSnap 10000 app0))
   \<and> canTrigger 22000 heldApp \<and> holdCrosses 22000 handLShape heldApp
   \<and> captureState (predictLoop 22000 (Hand handLShape) heldApp) = COUNTDOWN
   \<and> captureView (advance 33400
        (exec [(22500, Click), (25000, Frame (Hand handLShape)), (31000, Frame (Hand handLShape)),
               (33000, Click)] (predictLoop 22000 (Hand handLShape) heldApp)))
       = captureView (advance 33400 (predictLoop 22000 (Hand handLShape) heldApp))"
proof -
  have a: "clickSnap 19000 shotApp = shotApp"
    using C3_trigger_rejected [where st = shotApp and now = 19000]
    by (simp add: shotApp_fields)
  have b: "predictLoop 10500 (Hand handLShape) (clickSnap 10000 app0) = clickSnap 10000 app0"
    using C3_trigger_rejected [where st = "clickSnap 10000 app0" and now = 10500
        and det = "Hand handLShape"]
    by (simp add: click_app0)
  have c: "captureState (predictLoop 19980 (Hand handLShape) heldApp) = IDLE
           \<and> timers (predictLoop 19980 (Hand handLShape) heldApp) = []"
    using C3_trigger_rejected [where st = heldApp and now = 19980 and det = "Hand handLShape"]
    by (simp add: heldApp_fields)
  have d: "clickSnap 21400 (advance 21400 (clickSnap 10000 app0)) = advance 21400 (clickSnap 10000 app0)
           \<and> captureView (advance 21400
                (exec [(10500, Click), (12000, Frame (Hand handLShape)), (14000, Click),
                       (19000, Frame (Hand handLShape)), (21400, Click)] (clickSnap 10000 app0)))
               = captureView (advance 21400 (clickSnap 10000 app0))"
    using C3_trigger_rejected [where st = app0 and now = 10000 and t = 21400
        and evs = "[(10500, Click), (12000, Frame (Hand handLShape)), (14000, Click),
                    (19000, Frame (Hand handLShape)), (21400, Click)]"]
    by (simp add: canTrigger_app0)
  have e: "captureState (predictLoop 22000 (Hand handLShape) heldApp) = COUNTDOWN
           \<and> captureView (advance 33400
                (exec [(22500, Click), (25000, Frame (Hand handLShape)),
                       (31000, Frame (Hand handLShape)), (33000, Click)]
                   (predictLoop 22000 (Hand handLShape) heldApp)))
               = captureView (advance 33400 (predictLoop 22000 (Hand handLShape) heldApp))"
    using C3_trigger_rejected [where st = heldApp and now = 22000 and t = 33400
        and l = handLShape
        and evs = "[(22500, Click), (25000, Frame (Hand handLShape)),
                    (31000, Frame (Hand handLShape)), (33000, Click)]"]
    by (simp add: heldApp_ready)
  from a b c d e show ?thesis
    by (simp add: shotApp_fields heldApp_fields heldApp_crosses canTrigger_app0 heldApp_ready
        click_app0)
qed

text \<open>
  C7. For a photo taken at \<open>t0\<close> (resources present, no timer pending), the
  capture state is FLASH at once; seen at time \<open>t\<close> it is FLASH before
  \<open>t0 + 150\<close>, DEVELOPING from there to \<open>t0 + 4500\<close>, FLYING from there to
  \<open>t0 + 5500\<close>, and IDLE from then on, whatever frames and clicks arrive while the
  capture runs.
\<close>

theorem C7_capture_timeline:
  assumes "hasResources st" "timers st = []"
    and "sorted (map fst evs)"
    and "\<forall>te \<in> set evs. t0 \<le> fst te \<and> fst te < t0 + 5500 \<and> fst te \<le> t"
  shows "captureState (takePhoto t0 st) = FLASH
         \<and> captureState (advance t (exec evs (takePhoto t0 st))) =
             (if t < t0 + 150 then FLASH
              else if t < t0 + 4500 then DEVELOPING
              else if t < t0 + 5500 then FLYING
              else IDLE)"
  using capture_with_events [OF assms] takePhoto_fields(1) [OF assms(1,2)] by simp

text \<open>
  Witness for C7: the photo taken at 13 s in the concrete session, at each boundary,
  alone and with an L-shape frame, two clicks and a fist frame in between.
\<close>

theorem C7_capture_timeline_witness:
  "hasResources (posing app0) \<and> timers (posing app0) = []
   \<and> captureState (takePhoto 13000 (posing app0)) = FLASH
   \<and> captureState (advance 13149 (exec [] (takePhoto 13000 (posing app0)))) = FLASH
   \<and> captureState (advance 13150 (exec [] (takePhoto 13000 (posing app0)))) = DEVELOPING
   \<and> captureState (advance 17499 (exec [] (takePhoto 13000 (posing app0)))) = DEVELOPING
   \<and> captureState (advance 17500 (exec [] (takePhoto 13000 (posing app0)))) = FLYING
   \<and> captureState (advance 18499
        (exec [(13010, Frame (Hand handLShape)), (14000, Click),
               (17600, Frame (Hand handFist)), (18400, Click)]
           (takePhoto 13000 (posing app0)))) = FLYING
   \<and> captureState (advance 18500
        (exec [(13010, Frame (Hand handLShape)), (14000, Click),
               (17600, Frame (Hand handFist)), (18400, Click)]
           (takePhoto 13000 (posing app0)))) = IDLE"
  using C7_capture_timeline [OF posing_app0, of "[]" 13000 13149]
        C7_capture_timeline [OF posing_app0, of "[]" 13000 13150]
        C7_capture_timeline [OF posing_app0, of "[]" 13000 17499]
        C7_capture_timeline [OF posing_app0, of "[]" 13000 17500]
        C7_capture_timeline [OF posing_app0,
          of "[(13010, Frame (Hand handLShape)), (14000, Click),
               (17600, Frame (Hand handFist)), (18400, Click)]" 13000 18499]
        C7_capture_timeline [OF posing_app0,
          of "[(13010, Frame (Hand handLShape)), (14000, Click),
               (17600, Frame (Hand handFist)), (18400, Click)]" 13000 18500]
  by (simp add: posing_app0)

text \<open>
  C9. A zoomed-photo lock that is set survives every sequence of events in which no
  hand frame is classified OPEN_PALM, FIST or THUMBS_UP: PINCH, L_SHAPE and NONE
  frames, frames without a hand, frames in which detection fails, clicks, and the
  timers that run in between; and it survives \<^verbatim>\<open>takePhoto\<close>, the timers and a
  trigger taken on their own.
\<close>

theorem C9_zoom_lock_kept:
  "zoomedPhoto st = Some p \<Longrightarrow>
   ((\<forall>te \<in> set evs. \<forall>l. snd te = Frame (Hand l) \<longrightarrow> modeOf (classifyGesture l) = None)
      \<longrightarrow> zoomedPhoto (exec evs st) = Some p)
   \<and> zoomedPhoto (takePhoto now st) = Some p
   \<and> zoomedPhoto (advance t st) = Some p
   \<and> zoomedPhoto (clickSnap now st) = Some p"
  using zoomed_exec [of st p evs]
  by (simp add: zoomed_takePhoto zoomed_advance zoomed_clickSnap)

text \<open>
  Witness for C9: the lock set by the pinch hold of the concrete session survives
  frames of each kind and a second capture started by the click at 22 s.
\<close>

theorem C9_zoom_lock_kept_witness:
  "zoomedPhoto zoomedApp = Some 1351
   \<and> zoomedPhoto (exec [(20300, Frame (Hand handLShape)), (20316, Frame (Hand handNone)),
                         (20332, Frame NoHand), (20348, Frame (Hand handPinch)),
                         (20364, Frame Throws), (22000, Click),
                         (31000, Frame (Hand handLShape))] zoomedApp) = Some 1351
   \<and> zoomedPhoto (takePhoto 25000 zoomedApp) = Some 1351
   \<and> zoomedPhoto (advance 31000 zoomedApp) = Some 1351
   \<and> zoomedPhoto (clickSnap 25000 zoomedApp) = Some 1351"
  using C9_zoom_lock_kept [of zoomedApp 1351
      "[(20300, Frame (Hand handLShape)), (20316, Frame (Hand handNone)),
        (20332, Frame NoHand), (20348, Frame (Hand handPinch)),
        (20364, Frame Throws), (22000, Click), (31000, Frame (Hand handLShape))]" 25000 31000]
  by (simp add: zoomedApp_fields classify_hands)

end
